theory Spec2Isabelle
  imports Complex_Main "HOL-Library.Word"
begin

section \<open>JavaScript strings\<close>

text \<open>
  A JavaScript string is a sequence of UTF-16 code units. The regular expressions of
  \<^verbatim>\<open>server.js\<close> carry no \<^verbatim>\<open>u\<close> flag, so they work on code units too.
\<close>

type_synonym uchar = "16 word"
type_synonym ustring = "uchar list"

text \<open>
  The class \<^verbatim>\<open>\s\<close> of a regular expression, which is also the set of characters
  that \<^verbatim>\<open>String.prototype.trim\<close> strips (WhiteSpace and LineTerminator).
\<close>

definition is_ws :: "uchar \<Rightarrow> bool" where
  "is_ws c \<longleftrightarrow>
     c = 0x09 \<or> c = 0x0A \<or> c = 0x0B \<or> c = 0x0C \<or> c = 0x0D \<or> c = 0x20 \<or> c = 0xA0 \<or>
     c = 0x1680 \<or> (0x2000 \<le> c \<and> c \<le> 0x200A) \<or> c = 0x2028 \<or> c = 0x2029 \<or>
     c = 0x202F \<or> c = 0x205F \<or> c = 0x3000 \<or> c = 0xFEFF"

definition trim :: "ustring \<Rightarrow> ustring" where
  "trim s = rev (dropWhile is_ws (rev (dropWhile is_ws s)))"

text \<open>String literals of the source, written in ASCII, as code units.\<close>

definition ascii :: "string \<Rightarrow> ustring" where
  "ascii s = map of_char s"

text \<open>A number in a template literal: \<^verbatim>\<open>`${i}`\<close>.\<close>

definition digit :: "nat \<Rightarrow> char" where
  "digit n = ''0123456789'' ! n"

fun string_of_nat :: "nat \<Rightarrow> string" where
  "string_of_nat n =
     (if n < 10 then [digit n] else string_of_nat (n div 10) @ [digit (n mod 10)])"

text \<open>\<^verbatim>\<open>xs.findIndex(P)\<close>, with \<open>None\<close> for \<^verbatim>\<open>-1\<close>.\<close>

fun find_index :: "('a \<Rightarrow> bool) \<Rightarrow> 'a list \<Rightarrow> nat option" where
  "find_index P [] = None"
| "find_index P (x # xs) = (if P x then Some 0 else map_option Suc (find_index P xs))"

text \<open>
  \<open>split_first pat s\<close> cuts \<open>s\<close> at the first occurrence of \<open>pat\<close>: the text before
  it and the text after it. It serves \<^verbatim>\<open>String.prototype.replace\<close> with a string
  pattern and the lazy \<^verbatim>\<open>[\s\S]*?\<close> followed by a literal.
\<close>

fun split_first :: "'a list \<Rightarrow> 'a list \<Rightarrow> ('a list \<times> 'a list) option" where
  "split_first pat [] = (if pat = [] then Some ([], []) else None)"
| "split_first pat (c # cs) =
     (if take (length pat) (c # cs) = pat then Some ([], drop (length pat) (c # cs))
      else map_option (\<lambda>(b, a). (c # b, a)) (split_first pat cs))"

text \<open>\<^verbatim>\<open>s.replace(p, '')\<close> for a string \<^verbatim>\<open>p\<close>: the first occurrence goes.\<close>

definition replace_first_empty :: "ustring \<Rightarrow> ustring \<Rightarrow> ustring" where
  "replace_first_empty p s = (case split_first p s of None \<Rightarrow> s | Some (b, a) \<Rightarrow> b @ a)"

text \<open>
  Where a pattern lies in a text. \<open>occurs pat s\<close>: the text holds the pattern at some
  place. \<open>free_of pat g\<close>: the pattern begins nowhere inside \<open>g\<close>, whatever text
  follows \<open>g\<close>; so \<open>g\<close> does not hold it and does not end with the first
  characters of it.
\<close>

fun occurs :: "'a list \<Rightarrow> 'a list \<Rightarrow> bool" where
  "occurs pat [] = (pat = [])"
| "occurs pat (c # cs) = (take (length pat) (c # cs) = pat \<or> occurs pat cs)"

definition free_of :: "'a list \<Rightarrow> 'a list \<Rightarrow> bool" where
  "free_of pat g \<longleftrightarrow> \<not> occurs pat g \<and> (g = [] \<or> last g \<notin> set (butlast pat))"

section \<open>JavaScript values\<close>

text \<open>
  What \<^verbatim>\<open>JSON.parse\<close> returns and what the handlers build: \<^verbatim>\<open>undefined\<close>,
  \<^verbatim>\<open>null\<close>, booleans, numbers, strings, arrays and objects. An object is a map from
  property names to values.
\<close>

datatype jsval =
    JUndefined
  | JNull
  | JBool bool
  | JNum real
  | JStr ustring
  | JArr "jsval list"
  | JObj "string \<Rightarrow> jsval option"

type_synonym jsobj = "string \<Rightarrow> jsval option"

text \<open>Truthiness: what \<^verbatim>\<open>if (v)\<close>, \<^verbatim>\<open>!v\<close> and \<^verbatim>\<open>v || w\<close> test.\<close>

fun truthy :: "jsval \<Rightarrow> bool" where
  "truthy JUndefined = False"
| "truthy JNull = False"
| "truthy (JBool b) = b"
| "truthy (JNum n) = (n \<noteq> 0)"
| "truthy (JStr s) = (s \<noteq> [])"
| "truthy (JArr xs) = True"
| "truthy (JObj m) = True"

definition or_js :: "jsval \<Rightarrow> jsval \<Rightarrow> jsval" where
  "or_js v w = (if truthy v then v else w)"

text \<open>\<^verbatim>\<open>o.k\<close> on an object of the store.\<close>

definition get_prop :: "jsobj \<Rightarrow> string \<Rightarrow> jsval" where
  "get_prop m k = (case m k of None \<Rightarrow> JUndefined | Some v \<Rightarrow> v)"

text \<open>
  \<^verbatim>\<open>v.k\<close> on a value that is neither \<^verbatim>\<open>null\<close> nor \<^verbatim>\<open>undefined\<close> (on those
  it throws, which the callers below write out). The names the source reads
  (\<^verbatim>\<open>resume\<close>, \<^verbatim>\<open>skills\<close>, \<^verbatim>\<open>title\<close>, ...) are no properties of the
  prototypes of strings, numbers, booleans or arrays, so only an object can hold them.
\<close>

fun member :: "jsval \<Rightarrow> string \<Rightarrow> jsval" where
  "member (JObj m) k = get_prop m k"
| "member v k = JUndefined"

definition nullish :: "jsval \<Rightarrow> bool" where
  "nullish v \<longleftrightarrow> v = JNull \<or> v = JUndefined"

text \<open>\<^verbatim>\<open>v?.k\<close> and \<^verbatim>\<open>v?.[k]\<close>.\<close>

definition opt_member :: "jsval \<Rightarrow> string \<Rightarrow> jsval" where
  "opt_member v k = (if nullish v then JUndefined else member v k)"

text \<open>\<^verbatim>\<open>a === b\<close>: arrays and objects are compared by identity, and a value that was
  just parsed from a request or a file is identical to no other.\<close>

fun strict_eq :: "jsval \<Rightarrow> jsval \<Rightarrow> bool" where
  "strict_eq (JArr xs) w = False"
| "strict_eq (JObj m) w = False"
| "strict_eq v w = (v = w)"

text \<open>
  \<^verbatim>\<open>v[i]\<close> for a number \<^verbatim>\<open>i\<close>, on a value that is neither \<^verbatim>\<open>null\<close> nor
  \<^verbatim>\<open>undefined\<close>: an element of an array, a character of a string, the property of an
  object whose name is the number.
\<close>

fun at_index :: "jsval \<Rightarrow> nat \<Rightarrow> jsval" where
  "at_index (JArr xs) i = (if i < length xs then xs ! i else JUndefined)"
| "at_index (JStr s) i = (if i < length s then JStr [s ! i] else JUndefined)"
| "at_index (JObj m) i = get_prop m (string_of_nat i)"
| "at_index v i = JUndefined"

text \<open>
  The properties that \<^verbatim>\<open>{...v}\<close> copies: those of an object, the elements of an array
  and the characters of a string under their indices, nothing for any other value.
\<close>

fun own_props :: "jsval \<Rightarrow> jsobj" where
  "own_props (JObj m) = m"
| "own_props (JArr xs) = map_of (zip (map string_of_nat [0..<length xs]) xs)"
| "own_props (JStr s) = map_of (zip (map string_of_nat [0..<length s]) (map (\<lambda>c. JStr [c]) s))"
| "own_props v = Map.empty"

section \<open>Extraction of the structured result\<close>

text \<open>
  Every handler that calls the model runs the same two lines:
  \<^verbatim>\<open>
  const jsonMatch = result.match(/```(?:json)?\s*([\s\S]*?)```/) || [null, result];
  parsed = JSON.parse(jsonMatch[1].trim());
  \<close>
  in a \<^verbatim>\<open>try\<close> whose \<^verbatim>\<open>catch\<close> answers with the raw text.

  The match is the leftmost one. A match can only start at three backquotes, and it needs
  three more backquotes somewhere behind them; \<^verbatim>\<open>json\<close> and white space hold no
  backquote, so whether the optional tag and the white space are taken changes nothing to
  that, and if the first opening has no closing, no later one has. Group 1 is what lies
  between the tag and white space (both taken greedily) and the first closing behind them.
\<close>

definition fence :: ustring where "fence = [0x60, 0x60, 0x60]"
definition json_tag :: ustring where "json_tag = [0x6A, 0x73, 0x6F, 0x6E]"

definition fence_match :: "ustring \<Rightarrow> ustring option" where
  "fence_match result =
     (case split_first fence result of
        None \<Rightarrow> None
      | Some (before, rest) \<Rightarrow>
          (let rest1 = (if take 4 rest = json_tag then drop 4 rest else rest);
               rest2 = dropWhile is_ws rest1
           in map_option fst (split_first fence rest2)))"

text \<open>\<^verbatim>\<open>jsonMatch[1]\<close>: group 1 of the match, or the whole text when nothing matches.\<close>

definition jsonMatch1 :: "ustring \<Rightarrow> ustring" where
  "jsonMatch1 result = (case fence_match result of None \<Rightarrow> result | Some inner \<Rightarrow> inner)"

datatype extraction_error = ExtractionFailed (raw: ustring)

text \<open>
  \<^verbatim>\<open>JSON.parse\<close> belongs to the JavaScript runtime: it is the parameter \<open>parse\<close>, with
  \<open>None\<close> for the \<^verbatim>\<open>SyntaxError\<close> it throws.
\<close>

definition extract_result :: "(ustring \<Rightarrow> jsval option) \<Rightarrow> ustring \<Rightarrow> extraction_error + jsval" where
  "extract_result parse result =
     (case parse (trim (jsonMatch1 result)) of
        None \<Rightarrow> Inl (ExtractionFailed result)
      | Some parsed \<Rightarrow> Inr parsed)"

text \<open>
  \<^verbatim>\<open>JSON.parse\<close> skips the white space around a JSON text, and a JSON value neither
  starts nor ends with white space: a text that parses still parses, to the same value,
  once it is trimmed. The property is stated for the parameter where it is needed.
\<close>

definition ignores_outer_space :: "(ustring \<Rightarrow> jsval option) \<Rightarrow> bool" where
  "ignores_outer_space parse \<longleftrightarrow> (\<forall>s v. parse s = Some v \<longrightarrow> parse (trim s) = Some v)"

section \<open>The repair pass of \<^verbatim>\<open>generateDocx\<close>\<close>

definition lt_c :: uchar where "lt_c = 0x3C"
definition gt_c :: uchar where "gt_c = 0x3E"

definition p_open :: ustring where "p_open = [0x3C, 0x77, 0x3A, 0x70]"
definition p_close :: ustring where "p_close = [0x3C, 0x2F, 0x77, 0x3A, 0x70, 0x3E]"
definition t_open :: ustring where "t_open = [0x3C, 0x77, 0x3A, 0x74]"
definition t_close :: ustring where "t_close = [0x3C, 0x2F, 0x77, 0x3A, 0x74, 0x3E]"

text \<open>
  One match of \<^verbatim>\<open>/<w:p[ >][\s\S]*?<\/w:p>/\<close> at the head of the text: the matched
  paragraph and the text after it.
\<close>

definition match_p :: "ustring \<Rightarrow> (ustring \<times> ustring) option" where
  "match_p s =
     (if take 4 s = p_open \<and> (case drop 4 s of [] \<Rightarrow> False | c # _ \<Rightarrow> c = 0x20 \<or> c = gt_c)
      then (case split_first p_close (drop 5 s) of
              None \<Rightarrow> None
            | Some (body, rest) \<Rightarrow> Some (take 5 s @ body @ p_close, rest))
      else None)"

text \<open>
  One match of \<^verbatim>\<open>/<w:t[^>]*>([^<]*)<\/w:t>/\<close> at the head of the text: the whole
  match and the text after it.
\<close>

definition match_t :: "ustring \<Rightarrow> (ustring \<times> ustring) option" where
  "match_t s =
     (if take 4 s = t_open
      then (case dropWhile (\<lambda>c. c \<noteq> gt_c) (drop 4 s) of
              [] \<Rightarrow> None
            | g # s2 \<Rightarrow>
                (let s3 = dropWhile (\<lambda>c. c \<noteq> lt_c) s2
                 in if take 6 s3 = t_close
                    then Some (take (length s - length s3 + 6) s, drop 6 s3)
                    else None))
      else None)"

lemma split_first_length:
  "split_first pat s = Some (b, a) \<Longrightarrow> length a \<le> length s"
proof (induction s arbitrary: b)
  case Nil
  then show ?case by (simp split: if_splits)
next
  case (Cons c cs)
  then show ?case by (auto split: if_splits)
qed

lemma match_p_shorter: "match_p s = Some (m, rest) \<Longrightarrow> length rest < length s"
  by (cases s)
    (auto simp: match_p_def split: if_splits option.splits list.splits
          dest!: split_first_length)

lemma match_t_shorter: "match_t s = Some (m, rest) \<Longrightarrow> length rest < length s"
proof -
  assume a: "match_t s = Some (m, rest)"
  have le1: "\<And>P (xs::ustring). length (dropWhile P xs) \<le> length xs"
    by (simp add: length_dropWhile_le)
  from a obtain g s2 where
    s2: "dropWhile (\<lambda>c. c \<noteq> gt_c) (drop 4 s) = g # s2"
    and r: "rest = drop 6 (dropWhile (\<lambda>c. c \<noteq> lt_c) s2)"
    and t: "take 4 s = t_open"
    by (auto simp: match_t_def Let_def split: if_splits list.splits)
  have "length (g # s2) \<le> length (drop 4 s)"
    using le1 [of "\<lambda>c. c \<noteq> gt_c" "drop 4 s"] s2 by simp
  moreover have "length rest \<le> length s2"
    using le1 [of "\<lambda>c. c \<noteq> lt_c" s2] r by simp
  ultimately show ?thesis by simp
qed

text \<open>\<^verbatim>\<open>text.match(/.../g) || []\<close>: all matches, left to right, without overlap.\<close>

function paragraphs :: "ustring \<Rightarrow> ustring list" where
  "paragraphs [] = []"
| "paragraphs (c # cs) =
     (case match_p (c # cs) of
        None \<Rightarrow> paragraphs cs
      | Some (m, rest) \<Rightarrow> m # paragraphs rest)"
  by pat_completeness auto
termination
  by (relation "measure length") (auto dest: match_p_shorter)

function t_matches :: "ustring \<Rightarrow> ustring list" where
  "t_matches [] = []"
| "t_matches (c # cs) =
     (case match_t (c # cs) of
        None \<Rightarrow> t_matches cs
      | Some (m, rest) \<Rightarrow> m # t_matches rest)"
  by pat_completeness auto
termination
  by (relation "measure length") (auto dest: match_t_shorter)

text \<open>\<^verbatim>\<open>t.replace(/<[^>]+>/g, '')\<close>: every tag goes, the text between stays.\<close>

function strip_tags :: "ustring \<Rightarrow> ustring" where
  "strip_tags [] = []"
| "strip_tags (c # cs) =
     (if c = lt_c \<and> takeWhile (\<lambda>c. c \<noteq> gt_c) cs \<noteq> [] \<and> dropWhile (\<lambda>c. c \<noteq> gt_c) cs \<noteq> []
      then strip_tags (tl (dropWhile (\<lambda>c. c \<noteq> gt_c) cs))
      else c # strip_tags cs)"
  by pat_completeness auto
termination
proof (relation "measure length")
  fix c :: uchar and cs :: ustring
  assume "c = lt_c \<and> takeWhile (\<lambda>c. c \<noteq> gt_c) cs \<noteq> [] \<and> dropWhile (\<lambda>c. c \<noteq> gt_c) cs \<noteq> []"
  have "length (tl (dropWhile (\<lambda>c. c \<noteq> gt_c) cs)) \<le> length cs"
    using length_dropWhile_le [of "\<lambda>c. c \<noteq> gt_c" cs] by simp
  then show "(tl (dropWhile (\<lambda>c. c \<noteq> gt_c) cs), c # cs) \<in> measure length" by simp
qed simp_all

text \<open>The visible text of a paragraph: \<^verbatim>\<open>texts\<close> in the source.\<close>

definition texts :: "ustring \<Rightarrow> ustring" where
  "texts p = concat (map strip_tags (t_matches p))"

text \<open>
  The class of the regular expression that strips separators: \<^verbatim>\<open>\s\<close>, the em dash
  U+2014, the bullet U+2022 (both written twice in the source, as a character and as an
  escape), the hyphen and the vertical bar.
\<close>

definition is_sep :: "uchar \<Rightarrow> bool" where
  "is_sep c \<longleftrightarrow> is_ws c \<or> c = 0x2014 \<or> c = 0x2022 \<or> c = 0x2D \<or> c = 0x7C"

definition stripped :: "ustring \<Rightarrow> ustring" where
  "stripped t = trim (filter (\<lambda>c. \<not> is_sep c) t)"

text \<open>The test \<^verbatim>\<open>texts.trim() && !stripped\<close>; a string is truthy when it is not empty.\<close>

definition only_separators :: "ustring \<Rightarrow> bool" where
  "only_separators t \<longleftrightarrow> trim t \<noteq> [] \<and> \<not> (stripped t \<noteq> [])"

definition repair_step :: "ustring \<Rightarrow> ustring \<Rightarrow> ustring" where
  "repair_step docXml p =
     (if only_separators (texts p) then replace_first_empty p docXml else docXml)"

definition repair :: "ustring \<Rightarrow> ustring" where
  "repair docXml = foldl repair_step docXml (paragraphs docXml)"

subsection \<open>Documents whose paragraphs do not hold one another\<close>

text \<open>
  The shape that the rendering library gives to the body of a document: markup, then
  paragraphs with markup between them. \<open>p_start s\<close>: the text begins with the
  opening of a paragraph, \<^verbatim>\<open><w:p\<close> and a blank or \<^verbatim>\<open>>\<close>. \<open>markup g\<close>: no
  paragraph opens inside \<open>g\<close>. \<open>plain_paragraph p\<close>: the text goes from the opening
  of a paragraph to the first \<^verbatim>\<open></w:p>\<close> behind it, and no other paragraph opens
  inside it. \<open>document g0 pgs\<close> is the text of the markup \<open>g0\<close> followed by each
  paragraph of \<open>pgs\<close> and the markup behind it.
\<close>

definition p_start :: "ustring \<Rightarrow> bool" where
  "p_start s \<longleftrightarrow> take 5 s = p_open @ [0x20] \<or> take 5 s = p_open @ [gt_c]"

definition markup :: "ustring \<Rightarrow> bool" where
  "markup g \<longleftrightarrow> free_of (p_open @ [0x20]) g \<and> free_of (p_open @ [gt_c]) g"

definition plain_paragraph :: "ustring \<Rightarrow> bool" where
  "plain_paragraph p \<longleftrightarrow>
     p_start p \<and> 11 \<le> length p \<and> drop (length p - 6) p = p_close \<and>
     \<not> occurs p_close (butlast (drop 5 p)) \<and> markup (tl p)"

definition document :: "ustring \<Rightarrow> (ustring \<times> ustring) list \<Rightarrow> ustring" where
  "document g0 pgs = g0 @ concat (map (\<lambda>(p, g). p @ g) pgs)"

text \<open>
  A text element: \<^verbatim>\<open><w:t\<close>, attributes \<open>a\<close>, \<^verbatim>\<open>>\<close>, the characters \<open>t\<close> and
  \<^verbatim>\<open></w:t>\<close>.
\<close>

definition text_element :: "ustring \<Rightarrow> ustring \<Rightarrow> ustring" where
  "text_element a t = t_open @ a @ [gt_c] @ t @ t_close"

section \<open>The data files and the environment of a request\<close>

text \<open>
  A message of a mock interview. \<^verbatim>\<open>role\<close> is \<^verbatim>\<open>'assistant'\<close> for the interviewer
  and \<^verbatim>\<open>'user'\<close> for the candidate; a property that a message does not have reads
  \<^verbatim>\<open>undefined\<close>.
\<close>

datatype role = Assistant | User

record message =
  role :: role
  content :: jsval
  questionType :: jsval
  tip :: jsval
  feedback_m :: jsval

record session =
  id_s :: ustring
  jobId_s :: ustring
  messages :: "message list"
  questionCount :: nat
  feedback :: jsval
  createdAt :: ustring
  completedAt :: jsval

text \<open>An entry of \<^verbatim>\<open>document-templates.json\<close>, as the upload route writes it.\<close>

record template =
  type_t :: ustring
  filename :: ustring

text \<open>
  The files under \<^verbatim>\<open>data/\<close> that the handlers read and write. Resumes and cover
  letters are objects: the parsed result is spread into them. \<open>generated\<close> is the
  directory \<^verbatim>\<open>data/generated\<close>: file names with the document text written there.
\<close>

record store =
  jobs :: "jsobj list"
  profile :: jsobj
  resumes :: "jsobj list"
  coverLetters :: "jsobj list"
  interviews :: "session list"
  templates :: "template list"
  generated :: "(ustring \<times> ustring) list"

text \<open>
  What the world gives one request: the answer of the model (\<open>None\<close> when the call
  throws), the identifiers that \<^verbatim>\<open>uuidv4()\<close> returns, the clock, and for
  \<^verbatim>\<open>generateDocx\<close> the file system and the template library (\<open>render\<close> reads the
  template file, substitutes the data and returns the text of
  \<^verbatim>\<open>word/document.xml\<close>, \<open>None\<close> when one of these steps throws; \<open>write_ok\<close> is
  false when producing or writing the output file throws).
\<close>

record env =
  reply :: "ustring option"
  uuid :: ustring
  now :: ustring
  now_updated :: ustring
  today :: ustring
  file_exists :: "ustring \<Rightarrow> bool"
  render :: "ustring \<Rightarrow> jsobj \<Rightarrow> ustring option"
  uuid_docx :: ustring
  write_ok :: bool

text \<open>
  The answer to a request: the JSON body on success, or the status, the \<^verbatim>\<open>error\<close>
  message and the \<^verbatim>\<open>raw\<close> model text of an error answer.
\<close>

datatype 'a response = Success 'a | Failure nat string "ustring option"

section \<open>\<^verbatim>\<open>generateDocx\<close>\<close>

definition generateDocx ::
  "env \<Rightarrow> store \<Rightarrow> ustring \<Rightarrow> jsobj \<Rightarrow> ustring option \<times> (ustring \<times> ustring) list" where
  "generateDocx e st templateType data =
     (case List.find (\<lambda>t. type_t t = templateType) (templates st) of
        None \<Rightarrow> (None, generated st)
      | Some template \<Rightarrow>
          if \<not> file_exists e (filename template) then (None, generated st)
          else (case render e (filename template) data of
                  None \<Rightarrow> (None, generated st)
                | Some docXml \<Rightarrow>
                    (let outputFilename = templateType @ ascii ''-'' @ uuid_docx e @ ascii ''.docx''
                     in if write_ok e
                        then (Some outputFilename,
                              generated st @ [(outputFilename, repair docXml)])
                        else (None, generated st))))"

section \<open>Resumes and cover letters\<close>

text \<open>
  The entry that both generation handlers build (\<^verbatim>\<open>resumeEntry\<close>, \<^verbatim>\<open>clEntry\<close>), with
  \<open>old\<close> the entry found for the job, if any:
  \<^verbatim>\<open>
  { id: existing >= 0 ? resumes[existing].id : uuidv4(),
    jobId, jobTitle: job.title || '', company: job.company || '',
    ...parsed,
    createdAt: existing >= 0 ? resumes[existing].createdAt : new Date().toISOString(),
    updatedAt: new Date().toISOString() }
  \<close>
  A later property of an object literal overwrites an earlier one of the same name.
\<close>

definition artifact_entry :: "env \<Rightarrow> jsval \<Rightarrow> jsobj \<Rightarrow> jsval \<Rightarrow> jsobj option \<Rightarrow> jsobj" where
  "artifact_entry e jobId job parsed old =
     ((Map.empty
         (''id'' \<mapsto> (case old of Some r \<Rightarrow> get_prop r ''id'' | None \<Rightarrow> JStr (uuid e)),
          ''jobId'' \<mapsto> jobId,
          ''jobTitle'' \<mapsto> or_js (get_prop job ''title'') (JStr []),
          ''company'' \<mapsto> or_js (get_prop job ''company'') (JStr [])))
       ++ own_props parsed)
         (''createdAt'' \<mapsto> (case old of Some r \<Rightarrow> get_prop r ''createdAt'' | None \<Rightarrow> JStr (now e)),
          ''updatedAt'' \<mapsto> JStr (now_updated e))"

text \<open>\<^verbatim>\<open>if (docxFilename) { entry.docxPath = docxFilename; }\<close>\<close>

definition attach_docx :: "jsobj \<Rightarrow> ustring option \<Rightarrow> jsobj" where
  "attach_docx entry docxFilename =
     (case docxFilename of
        None \<Rightarrow> entry
      | Some f \<Rightarrow> if truthy (JStr f) then entry(''docxPath'' \<mapsto> JStr f) else entry)"

text \<open>\<^verbatim>\<open>if (existing >= 0) { xs[existing] = entry; } else { xs.push(entry); }\<close>\<close>

definition upsert :: "nat option \<Rightarrow> 'a \<Rightarrow> 'a list \<Rightarrow> 'a list" where
  "upsert existing entry xs =
     (case existing of Some i \<Rightarrow> xs[i := entry] | None \<Rightarrow> xs @ [entry])"

subsection \<open>The slots of the resume template\<close>

definition header_slots :: "jsobj \<Rightarrow> jsobj \<Rightarrow> jsval \<Rightarrow> env \<Rightarrow> jsobj" where
  "header_slots prof job parsed e =
     Map.empty
       (''name'' \<mapsto> or_js (get_prop prof ''name'') (JStr []),
        ''email'' \<mapsto> or_js (get_prop prof ''email'') (JStr []),
        ''phone'' \<mapsto> or_js (get_prop prof ''phone'') (JStr []),
        ''location'' \<mapsto> or_js (get_prop prof ''location'') (JStr []),
        ''title'' \<mapsto> or_js (get_prop prof ''title'') (JStr []),
        ''website'' \<mapsto>
           or_js (or_js (opt_member (get_prop prof ''links'') ''portfolio'')
                        (opt_member (get_prop prof ''links'') ''linkedin''))
                 (JStr []),
        ''company'' \<mapsto> or_js (get_prop job ''company'') (JStr []),
        ''job_title'' \<mapsto> or_js (get_prop job ''title'') (JStr []),
        ''date'' \<mapsto> JStr (today e),
        ''resume_content'' \<mapsto> or_js (member parsed ''resume'') (JStr []),
        ''summary'' \<mapsto> or_js (member parsed ''summary'') (JStr []))"

definition skillCategories :: "(string \<times> string) list" where
  "skillCategories = [(''management'', ''mgmt''), (''design'', ''design''), (''tools'', ''tools'')]"

definition skill_slots :: "jsval \<Rightarrow> jsobj \<Rightarrow> jsobj" where
  "skill_slots parsed templateData =
     fold (\<lambda>(category, prefix) td.
             (let skills = or_js (opt_member (member parsed ''skills'') category) (JArr [])
              in fold (\<lambda>i td. td(prefix @ ''_'' @ string_of_nat i
                                    \<mapsto> or_js (at_index skills (i - 1)) (JStr [])))
                      [1..<7] td))
          skillCategories templateData"

definition bulletCounts :: "nat list" where
  "bulletCounts = [4, 3, 3, 2]"

definition experience_slots :: "jsval \<Rightarrow> jsobj \<Rightarrow> jsobj" where
  "experience_slots parsed templateData =
     (let experiences = or_js (member parsed ''experiences'') (JArr [])
      in fold (\<lambda>e td.
                 (let exp = or_js (at_index experiences (e - 1)) (JObj Map.empty);
                      td1 = td(''exp'' @ string_of_nat e @ ''_title''
                                 \<mapsto> or_js (member exp ''title'') (JStr []),
                               ''exp'' @ string_of_nat e @ ''_company''
                                 \<mapsto> or_js (member exp ''company'') (JStr []),
                               ''exp'' @ string_of_nat e @ ''_location''
                                 \<mapsto> or_js (member exp ''location'') (JStr []),
                               ''exp'' @ string_of_nat e @ ''_dates''
                                 \<mapsto> or_js (member exp ''dates'') (JStr []));
                      bullets = or_js (member exp ''bullets'') (JArr [])
                  in fold (\<lambda>b td. td(''exp'' @ string_of_nat e @ ''_bullet'' @ string_of_nat b
                                        \<mapsto> or_js (at_index bullets (b - 1)) (JStr [])))
                          [1..<bulletCounts ! (e - 1) + 1] td1))
              [1..<5] templateData)"

text \<open>
  \<^verbatim>\<open>templateData\<close> of the resume handler. Reading \<^verbatim>\<open>parsed.resume\<close> throws a
  \<^verbatim>\<open>TypeError\<close> when \<^verbatim>\<open>parsed\<close> is \<^verbatim>\<open>null\<close>: \<open>None\<close>.
\<close>

definition templateData :: "jsobj \<Rightarrow> jsobj \<Rightarrow> jsval \<Rightarrow> env \<Rightarrow> jsobj option" where
  "templateData prof job parsed e =
     (if nullish parsed then None
      else Some (experience_slots parsed (skill_slots parsed (header_slots prof job parsed e))))"

text \<open>The data that the cover letter handler hands to \<^verbatim>\<open>generateDocx\<close>.\<close>

definition coverLetterData :: "jsobj \<Rightarrow> jsobj \<Rightarrow> jsval \<Rightarrow> env \<Rightarrow> jsobj option" where
  "coverLetterData prof job parsed e =
     (if nullish parsed then None
      else Some (Map.empty
        (''name'' \<mapsto> or_js (get_prop prof ''name'') (JStr []),
         ''email'' \<mapsto> or_js (get_prop prof ''email'') (JStr []),
         ''phone'' \<mapsto> or_js (get_prop prof ''phone'') (JStr []),
         ''location'' \<mapsto> or_js (get_prop prof ''location'') (JStr []),
         ''title'' \<mapsto> or_js (get_prop prof ''title'') (JStr []),
         ''company'' \<mapsto> or_js (get_prop job ''company'') (JStr []),
         ''job_title'' \<mapsto> or_js (get_prop job ''title'') (JStr []),
         ''date'' \<mapsto> JStr (today e),
         ''cover_letter_content'' \<mapsto> or_js (member parsed ''coverLetter'') (JStr []))))"

subsection \<open>The handlers\<close>

text \<open>
  A handler returns its answer, the data files after the request, and the number of calls
  to the model that it made. An exception inside the handler reaches the outer
  \<^verbatim>\<open>catch\<close>, which answers 500.
\<close>

definition tailor ::
  "(ustring \<Rightarrow> jsval option) \<Rightarrow> env \<Rightarrow> store \<Rightarrow> jsval \<Rightarrow> jsobj response \<times> store \<times> nat" where
  "tailor parse e st jobId =
     (if \<not> truthy jobId then (Failure 400 ''jobId is required'' None, st, 0)
      else case List.find (\<lambda>j. strict_eq (get_prop j ''id'') jobId) (jobs st) of
        None \<Rightarrow> (Failure 404 ''Job not found'' None, st, 0)
      | Some job \<Rightarrow>
          (case reply e of
             None \<Rightarrow> (Failure 500 ''Failed to tailor resume'' None, st, 1)
           | Some result \<Rightarrow>
               (case extract_result parse result of
                  Inl err \<Rightarrow> (Failure 500 ''Failed to parse tailored resume'' (Some (raw err)), st, 1)
                | Inr parsed \<Rightarrow>
                    (let existing = find_index (\<lambda>r. strict_eq (get_prop r ''jobId'') jobId) (resumes st);
                         resumeEntry = artifact_entry e jobId job parsed
                                         (map_option (\<lambda>i. resumes st ! i) existing)
                     in case templateData (profile st) job parsed e of
                          None \<Rightarrow> (Failure 500 ''Failed to tailor resume'' None, st, 1)
                        | Some data \<Rightarrow>
                            (let (docxFilename, files) = generateDocx e st (ascii ''resume'') data;
                                 entry = attach_docx resumeEntry docxFilename
                             in (Success entry,
                                 st\<lparr>resumes := upsert existing entry (resumes st),
                                    generated := files\<rparr>,
                                 1))))))"

definition generate_cover_letter ::
  "(ustring \<Rightarrow> jsval option) \<Rightarrow> env \<Rightarrow> store \<Rightarrow> jsval \<Rightarrow> jsobj response \<times> store \<times> nat" where
  "generate_cover_letter parse e st jobId =
     (if \<not> truthy jobId then (Failure 400 ''jobId is required'' None, st, 0)
      else case List.find (\<lambda>j. strict_eq (get_prop j ''id'') jobId) (jobs st) of
        None \<Rightarrow> (Failure 404 ''Job not found'' None, st, 0)
      | Some job \<Rightarrow>
          (case reply e of
             None \<Rightarrow> (Failure 500 ''Failed to generate cover letter'' None, st, 1)
           | Some result \<Rightarrow>
               (case extract_result parse result of
                  Inl err \<Rightarrow> (Failure 500 ''Failed to parse cover letter'' (Some (raw err)), st, 1)
                | Inr parsed \<Rightarrow>
                    (let existing = find_index (\<lambda>cl. strict_eq (get_prop cl ''jobId'') jobId)
                                      (coverLetters st);
                         clEntry = artifact_entry e jobId job parsed
                                     (map_option (\<lambda>i. coverLetters st ! i) existing)
                     in case coverLetterData (profile st) job parsed e of
                          None \<Rightarrow> (Failure 500 ''Failed to generate cover letter'' None, st, 1)
                        | Some data \<Rightarrow>
                            (let (docxFilename, files) =
                                   generateDocx e st (ascii ''cover-letter'') data;
                                 entry = attach_docx clEntry docxFilename
                             in (Success entry,
                                 st\<lparr>coverLetters := upsert existing entry (coverLetters st),
                                    generated := files\<rparr>,
                                 1))))))"

section \<open>The mock interview\<close>

text \<open>The session that \<^verbatim>\<open>start\<close> creates from the parsed opening question.\<close>

definition new_session :: "env \<Rightarrow> ustring \<Rightarrow> jsval \<Rightarrow> session" where
  "new_session e jobId parsed =
     \<lparr>id_s = uuid e,
      jobId_s = jobId,
      messages = [\<lparr>role = Assistant, content = member parsed ''question'',
                   questionType = member parsed ''questionType'', tip = member parsed ''tip'',
                   feedback_m = JUndefined\<rparr>],
      questionCount = 1,
      feedback = JNull,
      createdAt = now e,
      completedAt = JNull\<rparr>"

text \<open>What a successful \<^verbatim>\<open>respond\<close> does to the session: two pushes and a count.\<close>

definition add_turn :: "session \<Rightarrow> ustring \<Rightarrow> jsval \<Rightarrow> session" where
  "add_turn s answer parsed =
     s\<lparr>messages := messages s @
          [\<lparr>role = User, content = JStr answer, questionType = JUndefined, tip = JUndefined,
            feedback_m = JUndefined\<rparr>,
           \<lparr>role = Assistant, content = member parsed ''question'',
            questionType = member parsed ''questionType'', tip = member parsed ''tip'',
            feedback_m = member parsed ''feedback''\<rparr>],
       questionCount := questionCount s + 1\<rparr>"

text \<open>What a successful \<^verbatim>\<open>end\<close> does to the session.\<close>

definition complete :: "env \<Rightarrow> session \<Rightarrow> jsval \<Rightarrow> session" where
  "complete e s parsed = s\<lparr>feedback := parsed, completedAt := JStr (now e)\<rparr>"

text \<open>
  \<^verbatim>\<open>interviews.find((i) => i.id === req.params.id && i.jobId === req.params.jobId)\<close>
  returns the session object itself, which the handler then changes in place: the model
  keeps its index.
\<close>

definition find_session :: "ustring \<Rightarrow> ustring \<Rightarrow> session list \<Rightarrow> nat option" where
  "find_session jobId sid xs = find_index (\<lambda>i. id_s i = sid \<and> jobId_s i = jobId) xs"

definition start ::
  "(ustring \<Rightarrow> jsval option) \<Rightarrow> env \<Rightarrow> store \<Rightarrow> ustring \<Rightarrow> session response \<times> store \<times> nat" where
  "start parse e st jobId =
     (case List.find (\<lambda>j. strict_eq (get_prop j ''id'') (JStr jobId)) (jobs st) of
        None \<Rightarrow> (Failure 404 ''Job not found'' None, st, 0)
      | Some job \<Rightarrow>
          (case reply e of
             None \<Rightarrow> (Failure 500 ''Failed to start mock interview'' None, st, 1)
           | Some result \<Rightarrow>
               (case extract_result parse result of
                  Inl err \<Rightarrow>
                    (Failure 500 ''Failed to parse interviewer response'' (Some (raw err)), st, 1)
                | Inr parsed \<Rightarrow>
                    if nullish parsed
                    then (Failure 500 ''Failed to start mock interview'' None, st, 1)
                    else (Success (new_session e jobId parsed),
                          st\<lparr>interviews := interviews st @ [new_session e jobId parsed]\<rparr>,
                          1))))"

text \<open>
  The answer comes from the request body, so it is any JSON value. \<^verbatim>\<open>!answer\<close>
  rejects the falsy ones; \<^verbatim>\<open>answer.trim()\<close> throws on a truthy value that is no string.
  When the parsed reply is \<^verbatim>\<open>null\<close>, \<^verbatim>\<open>parsed.question\<close> throws after the first
  push, which changed the loaded copy only: nothing is saved.
\<close>

definition respond ::
  "(ustring \<Rightarrow> jsval option) \<Rightarrow> env \<Rightarrow> store \<Rightarrow> ustring \<Rightarrow> ustring \<Rightarrow> jsval
     \<Rightarrow> session response \<times> store \<times> nat" where
  "respond parse e st jobId sid answer =
     (if \<not> truthy answer then (Failure 400 ''Answer is required'' None, st, 0)
      else case answer of
        JStr a \<Rightarrow>
          if \<not> truthy (JStr (trim a)) then (Failure 400 ''Answer is required'' None, st, 0)
          else (case find_session jobId sid (interviews st) of
                  None \<Rightarrow> (Failure 404 ''Interview session not found'' None, st, 0)
                | Some k \<Rightarrow>
                    if truthy (completedAt (interviews st ! k))
                    then (Failure 400 ''This interview session is already complete'' None, st, 0)
                    else (case reply e of
                            None \<Rightarrow>
                              (Failure 500 ''Failed to process interview response'' None, st, 1)
                          | Some resultText \<Rightarrow>
                              (case extract_result parse resultText of
                                 Inl err \<Rightarrow>
                                   (Failure 500 ''Failed to parse interviewer response''
                                      (Some (raw err)), st, 1)
                               | Inr parsed \<Rightarrow>
                                   if nullish parsed
                                   then (Failure 500 ''Failed to process interview response''
                                           None, st, 1)
                                   else (Success (add_turn (interviews st ! k) a parsed),
                                         st\<lparr>interviews := (interviews st)
                                              [k := add_turn (interviews st ! k) a parsed]\<rparr>,
                                         1))))
      | _ \<Rightarrow> (Failure 500 ''Failed to process interview response'' None, st, 0))"

definition end_interview ::
  "(ustring \<Rightarrow> jsval option) \<Rightarrow> env \<Rightarrow> store \<Rightarrow> ustring \<Rightarrow> ustring
     \<Rightarrow> session response \<times> store \<times> nat" where
  "end_interview parse e st jobId sid =
     (case find_session jobId sid (interviews st) of
        None \<Rightarrow> (Failure 404 ''Interview session not found'' None, st, 0)
      | Some k \<Rightarrow>
          (case reply e of
             None \<Rightarrow> (Failure 500 ''Failed to end mock interview'' None, st, 1)
           | Some resultText \<Rightarrow>
               (case extract_result parse resultText of
                  Inl err \<Rightarrow> (Failure 500 ''Failed to parse assessment'' (Some (raw err)), st, 1)
                | Inr parsed \<Rightarrow>
                    (Success (complete e (interviews st ! k) parsed),
                     st\<lparr>interviews := (interviews st)
                          [k := complete e (interviews st ! k) parsed]\<rparr>,
                     1))))"

section \<open>The two kinds of artifact\<close>

text \<open>
  The two generation routes run the same steps on their own data file; the definitions
  below name what differs.
\<close>

datatype kind = Resume | CoverLetter

fun generate ::
  "kind \<Rightarrow> (ustring \<Rightarrow> jsval option) \<Rightarrow> env \<Rightarrow> store \<Rightarrow> jsval \<Rightarrow> jsobj response \<times> store \<times> nat" where
  "generate Resume = tailor"
| "generate CoverLetter = generate_cover_letter"




definition find_job :: "store \<Rightarrow> jsval \<Rightarrow> jsobj option" where
  "find_job st jobId = List.find (\<lambda>j. strict_eq (get_prop j ''id'') jobId) (jobs st)"




section \<open>The expressions that fill the slots\<close>

text \<open>
  The right-hand sides of the assignments in the two loops of the resume handler, with
  indices counted from 0: \<^verbatim>\<open>skills[i - 1] || ''\<close>, the experience
  \<^verbatim>\<open>experiences[e - 1] || {}\<close>, one of its fields, and \<^verbatim>\<open>bullets[b - 1] || ''\<close>.
\<close>

definition skill :: "jsval \<Rightarrow> string \<Rightarrow> nat \<Rightarrow> jsval" where
  "skill parsed category i =
     or_js (at_index (or_js (opt_member (member parsed ''skills'') category) (JArr [])) i) (JStr [])"

definition experience :: "jsval \<Rightarrow> nat \<Rightarrow> jsval" where
  "experience parsed i =
     or_js (at_index (or_js (member parsed ''experiences'') (JArr [])) i) (JObj Map.empty)"

definition exp_field :: "jsval \<Rightarrow> nat \<Rightarrow> string \<Rightarrow> jsval" where
  "exp_field parsed i f = or_js (member (experience parsed i) f) (JStr [])"

definition bullet :: "jsval \<Rightarrow> nat \<Rightarrow> nat \<Rightarrow> jsval" where
  "bullet parsed i b =
     or_js (at_index (or_js (member (experience parsed i) ''bullets'') (JArr [])) b) (JStr [])"

text \<open>
  The names of the slots that the handler fills, in the order in which it fills them, and
  the values it gives them in that order. The map made of the two lists is shown below to
  be the map that \<open>templateData\<close> returns.
\<close>

definition fixed_slots :: "string list" where
  "fixed_slots =
     [''name'', ''email'', ''phone'', ''location'', ''title'', ''website'', ''company'',
      ''job_title'', ''date'', ''resume_content'', ''summary'',
      ''mgmt_1'', ''mgmt_2'', ''mgmt_3'', ''mgmt_4'', ''mgmt_5'', ''mgmt_6'',
      ''design_1'', ''design_2'', ''design_3'', ''design_4'', ''design_5'', ''design_6'',
      ''tools_1'', ''tools_2'', ''tools_3'', ''tools_4'', ''tools_5'', ''tools_6'',
      ''exp1_title'', ''exp1_company'', ''exp1_location'', ''exp1_dates'',
      ''exp1_bullet1'', ''exp1_bullet2'', ''exp1_bullet3'', ''exp1_bullet4'',
      ''exp2_title'', ''exp2_company'', ''exp2_location'', ''exp2_dates'',
      ''exp2_bullet1'', ''exp2_bullet2'', ''exp2_bullet3'',
      ''exp3_title'', ''exp3_company'', ''exp3_location'', ''exp3_dates'',
      ''exp3_bullet1'', ''exp3_bullet2'', ''exp3_bullet3'',
      ''exp4_title'', ''exp4_company'', ''exp4_location'', ''exp4_dates'',
      ''exp4_bullet1'', ''exp4_bullet2'']"

definition slot_values :: "jsobj \<Rightarrow> jsobj \<Rightarrow> jsval \<Rightarrow> ustring \<Rightarrow> jsval list" where
  "slot_values prof job parsed d =
     [or_js (get_prop prof ''name'') (JStr []), or_js (get_prop prof ''email'') (JStr []),
      or_js (get_prop prof ''phone'') (JStr []), or_js (get_prop prof ''location'') (JStr []),
      or_js (get_prop prof ''title'') (JStr []),
      or_js (or_js (opt_member (get_prop prof ''links'') ''portfolio'')
                   (opt_member (get_prop prof ''links'') ''linkedin'')) (JStr []),
      or_js (get_prop job ''company'') (JStr []), or_js (get_prop job ''title'') (JStr []),
      JStr d,
      or_js (member parsed ''resume'') (JStr []), or_js (member parsed ''summary'') (JStr []),
      skill parsed ''management'' 0, skill parsed ''management'' 1, skill parsed ''management'' 2,
      skill parsed ''management'' 3, skill parsed ''management'' 4, skill parsed ''management'' 5,
      skill parsed ''design'' 0, skill parsed ''design'' 1, skill parsed ''design'' 2,
      skill parsed ''design'' 3, skill parsed ''design'' 4, skill parsed ''design'' 5,
      skill parsed ''tools'' 0, skill parsed ''tools'' 1, skill parsed ''tools'' 2,
      skill parsed ''tools'' 3, skill parsed ''tools'' 4, skill parsed ''tools'' 5,
      exp_field parsed 0 ''title'', exp_field parsed 0 ''company'',
      exp_field parsed 0 ''location'', exp_field parsed 0 ''dates'',
      bullet parsed 0 0, bullet parsed 0 1, bullet parsed 0 2, bullet parsed 0 3,
      exp_field parsed 1 ''title'', exp_field parsed 1 ''company'',
      exp_field parsed 1 ''location'', exp_field parsed 1 ''dates'',
      bullet parsed 1 0, bullet parsed 1 1, bullet parsed 1 2,
      exp_field parsed 2 ''title'', exp_field parsed 2 ''company'',
      exp_field parsed 2 ''location'', exp_field parsed 2 ''dates'',
      bullet parsed 2 0, bullet parsed 2 1, bullet parsed 2 2,
      exp_field parsed 3 ''title'', exp_field parsed 3 ''company'',
      exp_field parsed 3 ''location'', exp_field parsed 3 ''dates'',
      bullet parsed 3 0, bullet parsed 3 1]"

definition slot_map :: "jsobj \<Rightarrow> jsobj \<Rightarrow> jsval \<Rightarrow> ustring \<Rightarrow> jsobj" where
  "slot_map prof job parsed d = map_of (rev (zip fixed_slots (slot_values prof job parsed d)))"

section \<open>The invariant of an interview session\<close>

text \<open>
  The roles of a message list alternate, from a given first role on.
\<close>

fun other :: "role \<Rightarrow> role" where
  "other Assistant = User"
| "other User = Assistant"

fun alternates :: "role \<Rightarrow> role list \<Rightarrow> bool" where
  "alternates r [] = True"
| "alternates r (x # xs) = (x = r \<and> alternates (other r) xs)"

text \<open>
  The invariant of a session: the messages alternate from an interviewer message on, their
  number is odd (the last one is a question that waits for its answer), and
  \<^verbatim>\<open>questionCount\<close> counts the interviewer messages.
\<close>

definition session_inv :: "session \<Rightarrow> bool" where
  "session_inv s \<longleftrightarrow>
     alternates Assistant (map role (messages s)) \<and>
     odd (length (messages s)) \<and>
     questionCount s = length (filter (\<lambda>m. role m = Assistant) (messages s))"

text \<open>
  The requests to the three interview routes, each with what the world gives it, and the
  data files after a request.
\<close>

datatype request =
    Start ustring
  | Respond ustring ustring jsval
  | End ustring ustring

fun handle :: "(ustring \<Rightarrow> jsval option) \<Rightarrow> store \<Rightarrow> env \<times> request \<Rightarrow> store" where
  "handle parse st (e, Start jobId) = fst (snd (start parse e st jobId))"
| "handle parse st (e, Respond jobId sid answer) = fst (snd (respond parse e st jobId sid answer))"
| "handle parse st (e, End jobId sid) = fst (snd (end_interview parse e st jobId sid))"

text \<open>
  A series of answers to one session, all of them accepted: the data files after the last
  one, \<open>None\<close> when one of the answers fails.
\<close>

fun respond_all ::
  "(ustring \<Rightarrow> jsval option) \<Rightarrow> store \<Rightarrow> ustring \<Rightarrow> ustring \<Rightarrow> (env \<times> jsval) list \<Rightarrow> store option" where
  "respond_all parse st jobId sid [] = Some st"
| "respond_all parse st jobId sid ((e, answer) # turns) =
     (case respond parse e st jobId sid answer of
        (Success s, st', n) \<Rightarrow> respond_all parse st' jobId sid turns
      | (Failure c m r, st', n) \<Rightarrow> None)"

section \<open>Example data\<close>

text \<open>
  A parser for the examples: a table of the JSON texts that the examples use. The theorems
  hold for every parser.
\<close>

definition parse_examples :: "ustring \<Rightarrow> jsval option" where
  \<open>parse_examples =
     map_of
       [(ascii ''{}'', JObj Map.empty),
        (ascii ''null'', JNull),
        (ascii ''{"id":"x","createdAt":"never"}'',
           JObj (Map.empty(''id'' \<mapsto> JStr (ascii ''x''), ''createdAt'' \<mapsto> JStr (ascii ''never'')))),
        (ascii ''{"docxPath":"x.docx"}'', JObj (Map.empty(''docxPath'' \<mapsto> JStr (ascii ''x.docx''))))]\<close>

definition job1 :: jsobj where
  "job1 = Map.empty(''id'' \<mapsto> JStr (ascii ''job-1''), ''title'' \<mapsto> JStr (ascii ''Designer''),
                    ''company'' \<mapsto> JStr (ascii ''Acme''))"

definition store1 :: store where
  "store1 = \<lparr>jobs = [job1], profile = Map.empty, resumes = [], coverLetters = [],
              interviews = [], templates = [], generated = []\<rparr>"

text \<open>A request that the model answers with the empty object, and one that it refuses.\<close>

definition env1 :: env where
  "env1 = \<lparr>reply = Some (ascii ''{}''), uuid = ascii ''id-1'',
            now = ascii ''2026-01-02T10:00:00.000Z'',
            now_updated = ascii ''2026-01-02T10:00:00.001Z'',
            today = ascii ''January 2, 2026'', file_exists = (\<lambda>f. False),
            render = (\<lambda>f d. None), uuid_docx = ascii ''id-2'', write_ok = True\<rparr>"

definition env_refused :: env where
  "env_refused = env1\<lparr>reply := Some (ascii ''Sorry.'')\<rparr>"

text \<open>A session that was ended, with its assessment.\<close>

definition done_session :: session where
  "done_session =
     \<lparr>id_s = ascii ''s-1'', jobId_s = ascii ''job-1'',
      messages = [\<lparr>role = Assistant, content = JStr (ascii ''Why this role?''),
                   questionType = JStr (ascii ''behavioral''), tip = JUndefined,
                   feedback_m = JUndefined\<rparr>],
      questionCount = 1,
      feedback = JObj (Map.empty(''overallScore'' \<mapsto> JNum 7)),
      createdAt = ascii ''2026-01-01T09:00:00.000Z'',
      completedAt = JStr (ascii ''2026-01-01T09:30:00.000Z'')\<rparr>"

definition store2 :: store where
  "store2 = store1\<lparr>interviews := [done_session]\<rparr>"




definition env_null :: env where
  "env_null = env1\<lparr>reply := Some (ascii ''null'')\<rparr>"

definition env_next_day :: env where
  "env_next_day = env1\<lparr>today := ascii ''January 3, 2026''\<rparr>"


definition seven :: jsval where
  "seven = JObj (Map.empty(''skills'' \<mapsto> JObj (Map.empty(''management'' \<mapsto> JArr [JNum 7]))))"


text \<open>
  The scenario of the specification: a start, two answers, and then the end.
\<close>

definition answers :: "(env \<times> jsval) list" where
  "answers = [(env1, JStr (ascii ''I led a team of 5 engineers.'')),
              (env1, JStr (ascii ''I resolved the conflict by listening.''))]"

definition five_and_eight :: jsval where
  "five_and_eight =
     JObj (Map.empty(''skills'' \<mapsto> JObj (Map.empty
       (''management'' \<mapsto> JArr (map (\<lambda>s. JStr (ascii s))
           [''Hiring'', ''Planning'', ''Coaching'', ''Budgets'', ''Roadmaps'']),
        ''tools'' \<mapsto> JArr (map (\<lambda>s. JStr (ascii s))
           [''Figma'', ''Sketch'', ''Miro'', ''Jira'', ''Notion'', ''Slack'', ''Excel'', ''Word''])))))"

section \<open>Facts about the examples\<close>

lemma extract_empty_object:
  "extract_result parse_examples (ascii ''{}'') = Inr (JObj Map.empty)"
proof -
  have j: "jsonMatch1 (ascii ''{}'') = ascii ''{}''" by code_simp
  have t: "trim (ascii ''{}'') = ascii ''{}''" by code_simp
  show ?thesis
    by (simp add: extract_result_def j t parse_examples_def)
qed

lemma extract_refused:
  "extract_result parse_examples (ascii ''Sorry.'') = Inl (ExtractionFailed (ascii ''Sorry.''))"
proof -
  have j: "jsonMatch1 (ascii ''Sorry.'') = ascii ''Sorry.''" by code_simp
  have t: "trim (ascii ''Sorry.'') = ascii ''Sorry.''" by code_simp
  show ?thesis
    by (simp add: extract_result_def j t parse_examples_def) (simp add: ascii_def)
qed

lemma find_done_session:
  "find_session (ascii ''job-1'') (ascii ''s-1'') (interviews store2) = Some 0"
  by (simp add: find_session_def store2_def done_session_def)

lemma trim_Nil: "trim [] = []"
  by (simp add: trim_def)





lemma extract_null: "extract_result parse_examples (ascii ''null'') = Inr JNull"
proof -
  have j: "jsonMatch1 (ascii ''null'') = ascii ''null''" by code_simp
  have t: "trim (ascii ''null'') = ascii ''null''" by code_simp
  show ?thesis
    by (simp add: extract_result_def j t parse_examples_def) (simp add: ascii_def)
qed


lemma job1_id_nonempty: "ascii ''job-1'' \<noteq> []"
  by (simp add: ascii_def)

lemma find_job1_store1: "find_job store1 (JStr (ascii ''job-1'')) = Some job1"
  by (simp add: find_job_def store1_def job1_def get_prop_def)




lemma parse_examples_ignores_outer_space: "ignores_outer_space parse_examples"
proof -
  have t: "list_all (\<lambda>k. trim k = k)
             [ascii ''{}'', ascii ''null'', ascii ''{\"id\":\"x\",\"createdAt\":\"never\"}'',
              ascii ''{\"docxPath\":\"x.docx\"}'']"
    by code_simp
  show ?thesis
    unfolding ignores_outer_space_def
  proof (intro allI impI)
    fix s v
    assume a: "parse_examples s = Some v"
    then have "s \<in> {ascii ''{}'', ascii ''null'', ascii ''{\"id\":\"x\",\"createdAt\":\"never\"}'',
              ascii ''{\"docxPath\":\"x.docx\"}''}"
      by (auto simp: parse_examples_def split: if_splits)
    with t have "trim s = s" by auto
    with a show "parse_examples (trim s) = Some v" by simp
  qed
qed

section \<open>Properties of the string functions\<close>

lemma split_first_Some: "split_first pat s = Some (b, a) \<Longrightarrow> s = b @ pat @ a"
proof (induction s arbitrary: b)
  case Nil
  then show ?case by (simp split: if_splits)
next
  case (Cons c cs)
  show ?case
  proof (cases "take (length pat) (c # cs) = pat")
    case True
    with Cons.prems have b: "b = []" and a: "a = drop (length pat) (c # cs)" by simp_all
    have "c # cs = take (length pat) (c # cs) @ drop (length pat) (c # cs)"
      by (simp only: append_take_drop_id)
    then have "c # cs = pat @ a" using True a by simp
    then show ?thesis using b by simp
  next
    case False
    with Cons.prems obtain b' where "split_first pat cs = Some (b', a)" "b = c # b'"
      by auto
    with Cons.IH show ?thesis by simp
  qed
qed

lemma occurs_iff: "occurs pat s \<longleftrightarrow> (\<exists>b a. s = b @ pat @ a)"
proof (induction s)
  case Nil
  then show ?case by auto
next
  case (Cons c cs)
  show ?case
  proof
    assume "occurs pat (c # cs)"
    then consider "take (length pat) (c # cs) = pat" | "occurs pat cs" by auto
    then show "\<exists>b a. c # cs = b @ pat @ a"
    proof cases
      case 1
      have "c # cs = take (length pat) (c # cs) @ drop (length pat) (c # cs)"
        by (simp only: append_take_drop_id)
      with 1 have "c # cs = [] @ pat @ drop (length pat) (c # cs)" by simp
      then show ?thesis by blast
    next
      case 2
      with Cons.IH obtain b a where "cs = b @ pat @ a" by blast
      then have "c # cs = (c # b) @ pat @ a" by simp
      then show ?thesis by blast
    qed
  next
    assume "\<exists>b a. c # cs = b @ pat @ a"
    then obtain b a where e: "c # cs = b @ pat @ a" by blast
    show "occurs pat (c # cs)"
    proof (cases b)
      case Nil
      with e have "take (length pat) (c # cs) = pat" by simp
      then show ?thesis by simp
    next
      case (Cons x b')
      with e have "cs = b' @ pat @ a" by simp
      with Cons.IH have "occurs pat cs" by blast
      then show ?thesis by simp
    qed
  qed
qed

lemma occurs_length: "occurs pat s \<Longrightarrow> length pat \<le> length s"
  by (auto simp: occurs_iff)

lemma split_first_first:
  "pat \<noteq> [] \<Longrightarrow> \<not> occurs pat (b @ butlast pat) \<Longrightarrow> split_first pat (b @ pat @ a) = Some (b, a)"
proof (induction b)
  case Nil
  then obtain x xs where p: "pat = x # xs" by (cases pat) auto
  then show ?case by simp
next
  case (Cons c b)
  have n: "\<not> occurs pat (b @ butlast pat)" using Cons.prems(2) by simp
  have t: "take (length pat) ((c # b) @ butlast pat) \<noteq> pat" using Cons.prems(2) by simp
  have "(c # b) @ pat @ a = ((c # b) @ butlast pat) @ ([last pat] @ a)"
    using Cons.prems(1) by simp
  moreover have "length pat \<le> length ((c # b) @ butlast pat)" by simp
  ultimately have "take (length pat) ((c # b) @ pat @ a) = take (length pat) ((c # b) @ butlast pat)"
    by (metis append_eq_conv_conj take_append take_all_iff append.right_neutral diff_is_0_eq take_0)
  with t have "take (length pat) (c # b @ pat @ a) \<noteq> pat" by simp
  with Cons.IH [OF Cons.prems(1) n] show ?case by simp
qed

lemma split_first_None: "split_first pat s = None \<longleftrightarrow> \<not> occurs pat s"
  by (induction s) auto

lemma occurs_drop: "occurs pat (drop k s) \<Longrightarrow> occurs pat s"
proof -
  assume "occurs pat (drop k s)"
  then obtain b a where "drop k s = b @ pat @ a" by (auto simp: occurs_iff)
  then have "take k s @ drop k s = (take k s @ b) @ pat @ a" by simp
  then have "s = (take k s @ b) @ pat @ a" by (simp only: append_take_drop_id)
  then show ?thesis unfolding occurs_iff by blast
qed

lemma not_occurs_butlast:
  assumes "p \<noteq> []"
  shows "\<not> occurs p (butlast p)"
proof
  assume "occurs p (butlast p)"
  then have "length p \<le> length (butlast p)" by (rule occurs_length)
  moreover from assms have "0 < length p" by simp
  ultimately show False unfolding length_butlast by arith
qed

lemma free_of_tl: "free_of pat (c # g) \<Longrightarrow> free_of pat g"
  by (auto simp: free_of_def)

lemma free_of_head:
  assumes f: "free_of pat g" and ne: "g \<noteq> []"
  shows "take (length pat) (g @ y) \<noteq> pat"
proof
  assume e: "take (length pat) (g @ y) = pat"
  show False
  proof (cases "length pat \<le> length g")
    case True
    with e have "take (length pat) g = pat" by simp
    moreover from ne obtain c g' where "g = c # g'" by (cases g) auto
    ultimately have "occurs pat g" by simp
    with f show False by (simp add: free_of_def)
  next
    case False
    then have l: "length g < length pat" by simp
    have "take (length g) (take (length pat) (g @ y)) = g" using l by (simp add: min_def)
    with e have "g = take (length g) pat" by simp
    also have "\<dots> = take (length g) (butlast pat)" using l by (simp add: take_butlast)
    finally have "set g \<subseteq> set (butlast pat)" by (metis set_take_subset)
    moreover have "last g \<in> set g" using ne by (rule last_in_set)
    ultimately have "last g \<in> set (butlast pat)" by blast
    with f ne show False by (simp add: free_of_def)
  qed
qed

lemma dropWhile_until: "c \<notin> set a \<Longrightarrow> dropWhile (\<lambda>x. x \<noteq> c) (a @ c # r) = c # r"
  by (induction a) auto

lemma takeWhile_until: "c \<notin> set a \<Longrightarrow> takeWhile (\<lambda>x. x \<noteq> c) (a @ c # r) = a"
  by (induction a) auto

section \<open>Properties of the repair pass\<close>

lemma trim_empty_iff: "trim t = [] \<longleftrightarrow> (\<forall>c\<in>set t. is_ws c)"
proof
  assume "trim t = []"
  then have "dropWhile is_ws (rev (dropWhile is_ws t)) = []"
    by (simp add: trim_def)
  then have a: "\<forall>c\<in>set (dropWhile is_ws t). is_ws c"
    by (simp add: dropWhile_eq_Nil_conv)
  show "\<forall>c\<in>set t. is_ws c"
  proof (rule ccontr)
    assume "\<not> (\<forall>c\<in>set t. is_ws c)"
    then have ne: "dropWhile is_ws t \<noteq> []"
      by (simp add: dropWhile_eq_Nil_conv)
    then have "\<not> is_ws (hd (dropWhile is_ws t))"
      by (rule hd_dropWhile)
    moreover have "hd (dropWhile is_ws t) \<in> set (dropWhile is_ws t)"
      using ne by simp
    ultimately show False using a by blast
  qed
next
  assume "\<forall>c\<in>set t. is_ws c"
  then show "trim t = []"
    by (auto simp: trim_def dropWhile_eq_Nil_conv dest: set_dropWhileD)
qed

lemma stripped_empty_iff: "stripped t = [] \<longleftrightarrow> (\<forall>c\<in>set t. is_sep c)"
  by (auto simp: stripped_def trim_empty_iff is_sep_def)

lemma only_separators_iff:
  "only_separators t \<longleftrightarrow> (\<forall>c\<in>set t. is_sep c) \<and> (\<exists>c\<in>set t. \<not> is_ws c)"
  by (auto simp: only_separators_def trim_empty_iff stripped_empty_iff)

text \<open>The paragraphs that the repair pass finds in a document of this shape.\<close>

lemma markup_tl: "markup (c # g) \<Longrightarrow> markup g"
  unfolding markup_def by (elim conjE, intro conjI) (erule free_of_tl)+

lemma markup_no_start:
  assumes "markup g" and "g \<noteq> []"
  shows "\<not> p_start (g @ y)"
proof -
  have l: "length (p_open @ [c]) = 5" for c by (simp add: p_open_def)
  from assms have "free_of (p_open @ [0x20]) g" and "free_of (p_open @ [gt_c]) g"
    by (simp_all add: markup_def)
  from free_of_head [OF this(1) assms(2), of y] free_of_head [OF this(2) assms(2), of y]
  have "take 5 (g @ y) \<noteq> p_open @ [0x20]" and "take 5 (g @ y) \<noteq> p_open @ [gt_c]"
    unfolding l by blast+
  then show ?thesis by (simp add: p_start_def)
qed

lemma p_start_guard:
  "p_start s \<longleftrightarrow>
     take 4 s = p_open \<and> (case drop 4 s of [] \<Rightarrow> False | c # _ \<Rightarrow> c = 0x20 \<or> c = gt_c)"
proof (cases "drop 4 s")
  case Nil
  then have "length (take 5 s) \<le> 4" by simp
  moreover have "length (p_open @ [c]) = 5" for c by (simp add: p_open_def)
  ultimately have "length (take 5 s) \<noteq> length (p_open @ [c])" for c by simp
  then have "take 5 s \<noteq> p_open @ [c]" for c by metis
  then have "\<not> p_start s" unfolding p_start_def by blast
  with Nil show ?thesis by simp
next
  case (Cons c r)
  have "take 5 s = take 4 s @ take 1 (drop 4 s)"
    using take_add [of 4 1 s] by simp
  with Cons have "take 5 s = take 4 s @ [c]" by simp
  with Cons show ?thesis by (auto simp: p_start_def)
qed

lemma not_start_no_match: "\<not> p_start s \<Longrightarrow> match_p s = None"
  unfolding p_start_guard match_p_def by (rule if_not_P)

lemma paragraphs_markup: "markup g \<Longrightarrow> paragraphs (g @ y) = paragraphs y"
proof (induction g)
  case Nil
  then show ?case by simp
next
  case (Cons c g)
  have "\<not> p_start ((c # g) @ y)" using Cons.prems by (rule markup_no_start) simp
  then have "match_p (c # g @ y) = None" using not_start_no_match by simp
  moreover have "markup g" using Cons.prems by (rule markup_tl)
  ultimately show ?case using Cons.IH by simp
qed

lemma p_close_nonempty: "p_close \<noteq> []" by (simp add: p_close_def)

lemma plain_paragraph_shape:
  assumes "plain_paragraph p"
  shows "\<exists>body. p = take 5 p @ body @ p_close \<and> \<not> occurs p_close (body @ butlast p_close)"
proof -
  define body where "body = take (length p - 11) (drop 5 p)"
  from assms have l: "11 \<le> length p" and c: "drop (length p - 6) p = p_close"
    and n: "\<not> occurs p_close (butlast (drop 5 p))"
    by (simp_all add: plain_paragraph_def)
  have "drop (length p - 11) (drop 5 p) = drop (length p - 6) p" using l by simp
  with c have "drop 5 p = body @ p_close"
    unfolding body_def by (metis append_take_drop_id)
  moreover from this have "p = take 5 p @ body @ p_close"
    by (metis append_take_drop_id)
  moreover from calculation(1) n have "\<not> occurs p_close (body @ butlast p_close)"
    by (simp add: butlast_append p_close_nonempty)
  ultimately show ?thesis by blast
qed

lemma match_plain_paragraph:
  assumes "plain_paragraph p"
  shows "match_p (p @ y) = Some (p, y)"
proof -
  from plain_paragraph_shape [OF assms] obtain body where
    s: "p = take 5 p @ body @ p_close" and n: "\<not> occurs p_close (body @ butlast p_close)"
    by blast
  from assms have l: "11 \<le> length p" and o: "p_start p" by (simp_all add: plain_paragraph_def)
  have t: "take 5 (p @ y) = take 5 p" using l by simp
  have "p_start (p @ y)" using o unfolding p_start_def t .
  then have g: "take 4 (p @ y) = p_open \<and>
       (case drop 4 (p @ y) of [] \<Rightarrow> False | c # _ \<Rightarrow> c = 0x20 \<or> c = gt_c)"
    unfolding p_start_guard .
  have "drop 5 p = body @ p_close" using s l
    by (metis append_eq_conv_conj length_take min.absorb2 add_leE numeral_Bit1 numeral_Bit0 One_nat_def le_add2 order_trans)
  then have d: "drop 5 (p @ y) = body @ p_close @ y" using l by simp
  have f: "split_first p_close (body @ p_close @ y) = Some (body, y)"
    by (rule split_first_first [OF p_close_nonempty n])
  have "match_p (p @ y) = Some (take 5 (p @ y) @ body @ p_close, y)"
    unfolding match_p_def by (simp only: g d f simp_thms if_True option.case prod.case)
  then show ?thesis unfolding t using s by simp
qed

lemma plain_paragraph_Cons: "plain_paragraph p \<Longrightarrow> p = hd p # tl p"
  by (cases p) (auto simp: plain_paragraph_def)

lemma paragraphs_plain:
  assumes "plain_paragraph p"
  shows "paragraphs (p @ y) = p # paragraphs y"
proof -
  from plain_paragraph_Cons [OF assms] obtain c cs where p: "p = c # cs" by blast
  have "match_p (c # cs @ y) = Some (p, y)"
    using match_plain_paragraph [OF assms, of y] p by simp
  then show ?thesis using p by simp
qed

lemma paragraphs_pieces:
  assumes "\<forall>(p, g)\<in>set pgs. plain_paragraph p \<and> markup g"
  shows "paragraphs (concat (map (\<lambda>(p, g). p @ g) pgs)) = map fst pgs"
  using assms
proof (induction pgs)
  case Nil
  then show ?case by simp
next
  case (Cons pg pgs)
  obtain p g where pg: "pg = (p, g)" by (cases pg)
  from Cons.prems pg have pp: "plain_paragraph p" and m: "markup g" by auto
  from Cons.prems have r: "\<forall>(p, g)\<in>set pgs. plain_paragraph p \<and> markup g" by simp
  have "paragraphs (p @ g @ concat (map (\<lambda>(p, g). p @ g) pgs))
          = p # paragraphs (g @ concat (map (\<lambda>(p, g). p @ g) pgs))"
    by (rule paragraphs_plain [OF pp])
  also have "paragraphs (g @ concat (map (\<lambda>(p, g). p @ g) pgs))
          = paragraphs (concat (map (\<lambda>(p, g). p @ g) pgs))"
    by (rule paragraphs_markup [OF m])
  finally show ?case using Cons.IH [OF r] pg by simp
qed

lemma paragraphs_document:
  assumes "markup g0" and "\<forall>(p, g)\<in>set pgs. plain_paragraph p \<and> markup g"
  shows "paragraphs (document g0 pgs) = map fst pgs"
  unfolding document_def
  by (simp only: paragraphs_markup [OF assms(1)] paragraphs_pieces [OF assms(2)])

text \<open>
  Where the text of a paragraph can lie in such a document: not in the markup, and not in
  another paragraph.
\<close>

lemma p_start_prefix:
  assumes "p_start p" and "take (length p) s = p"
  shows "p_start s"
proof -
  from assms(1) have "5 \<le> length p"
    by (auto simp: p_start_def p_open_def dest!: arg_cong [where f = length])
  then have "take 5 (take (length p) s) = take 5 s" by (simp add: min_def)
  with assms show ?thesis by (simp add: p_start_def)
qed

lemma occurs_markup:
  assumes "p_start p" and "markup g"
  shows "occurs p (g @ y) = occurs p y"
  using assms(2)
proof (induction g)
  case Nil
  then show ?case by simp
next
  case (Cons c g)
  have "\<not> p_start ((c # g) @ y)" using Cons.prems by (rule markup_no_start) simp
  with p_start_prefix [OF assms(1)] have "take (length p) ((c # g) @ y) \<noteq> p" by blast
  moreover have "markup g" using Cons.prems by (rule markup_tl)
  ultimately show ?case using Cons.IH by simp
qed

lemma occurs_other_paragraph:
  assumes p: "plain_paragraph p" and q: "plain_paragraph q" and ne: "p \<noteq> q"
  shows "occurs p (q @ y) = occurs p y"
proof -
  from plain_paragraph_Cons [OF q] obtain c cs where qc: "q = c # cs" by blast
  have "take (length p) (q @ y) \<noteq> p"
  proof
    assume e: "take (length p) (q @ y) = p"
    have "q @ y = take (length p) (q @ y) @ drop (length p) (q @ y)"
      by (simp only: append_take_drop_id)
    with e have "q @ y = p @ drop (length p) (q @ y)" by simp
    then have "match_p (q @ y) = match_p (p @ drop (length p) (q @ y))" by simp
    then have "Some (q, y) = Some (p, drop (length p) (q @ y))"
      by (simp only: match_plain_paragraph [OF p] match_plain_paragraph [OF q])
    with ne show False by simp
  qed
  moreover have "occurs p (cs @ y) = occurs p y"
  proof (rule occurs_markup)
    show "p_start p" using p by (simp add: plain_paragraph_def)
    show "markup cs" using q qc by (simp add: plain_paragraph_def)
  qed
  ultimately show ?thesis using qc by simp
qed

text \<open>The pass, paragraph by paragraph.\<close>

lemma repair_pieces:
  assumes "\<forall>p y. plain_paragraph p \<and> only_separators (texts p) \<longrightarrow> occurs p (r @ y) = occurs p y"
    and "\<forall>(p, g)\<in>set pgs. plain_paragraph p \<and> markup g"
  shows "foldl repair_step (r @ concat (map (\<lambda>(p, g). p @ g) pgs)) (map fst pgs)
           = r @ concat (map (\<lambda>(p, g). (if only_separators (texts p) then [] else p) @ g) pgs)"
  using assms
proof (induction pgs arbitrary: r)
  case Nil
  then show ?case by simp
next
  case (Cons pg pgs)
  obtain p g where pg: "pg = (p, g)" by (cases pg)
  from Cons.prems(2) pg have pp: "plain_paragraph p" and m: "markup g" by auto
  from Cons.prems(2) have rest: "\<forall>(p, g)\<in>set pgs. plain_paragraph p \<and> markup g" by simp
  let ?U = "concat (map (\<lambda>(p, g). p @ g) pgs)"
  let ?V = "concat (map (\<lambda>(p, g). (if only_separators (texts p) then [] else p) @ g) pgs)"
  have pne: "p \<noteq> []" using plain_paragraph_Cons [OF pp] by auto
  show ?case
  proof (cases "only_separators (texts p)")
    case True
    have "occurs p (r @ butlast p) = occurs p (butlast p)"
      using Cons.prems(1) pp True by blast
    then have "\<not> occurs p (r @ butlast p)" using not_occurs_butlast [OF pne] by simp
    then have "split_first p (r @ p @ (g @ ?U)) = Some (r, g @ ?U)"
      by (rule split_first_first [OF pne])
    then have step: "repair_step (r @ p @ g @ ?U) p = (r @ g) @ ?U"
      by (simp add: repair_step_def True replace_first_empty_def)
    have clean: "\<forall>p' y. plain_paragraph p' \<and> only_separators (texts p')
                   \<longrightarrow> occurs p' ((r @ g) @ y) = occurs p' y"
    proof (intro allI impI)
      fix p' y
      assume a: "plain_paragraph p' \<and> only_separators (texts p')"
      then have "occurs p' (r @ (g @ y)) = occurs p' (g @ y)" using Cons.prems(1) by blast
      also have "\<dots> = occurs p' y"
        using a m by (intro occurs_markup) (simp_all add: plain_paragraph_def)
      finally show "occurs p' ((r @ g) @ y) = occurs p' y" by simp
    qed
    have "foldl repair_step ((r @ g) @ ?U) (map fst pgs) = (r @ g) @ ?V"
      by (rule Cons.IH [OF clean rest])
    then show ?thesis using step pg True by simp
  next
    case False
    have step: "repair_step (r @ p @ g @ ?U) p = (r @ p @ g) @ ?U"
      by (simp add: repair_step_def False)
    have clean: "\<forall>p' y. plain_paragraph p' \<and> only_separators (texts p')
                   \<longrightarrow> occurs p' ((r @ p @ g) @ y) = occurs p' y"
    proof (intro allI impI)
      fix p' y
      assume a: "plain_paragraph p' \<and> only_separators (texts p')"
      then have ne: "p' \<noteq> p" using False by auto
      from a have "occurs p' (r @ (p @ g @ y)) = occurs p' (p @ g @ y)"
        using Cons.prems(1) by blast
      also have "\<dots> = occurs p' (g @ y)"
        using a pp ne by (intro occurs_other_paragraph) simp_all
      also have "\<dots> = occurs p' y"
        using a m by (intro occurs_markup) (simp_all add: plain_paragraph_def)
      finally show "occurs p' ((r @ p @ g) @ y) = occurs p' y" by simp
    qed
    have "foldl repair_step ((r @ p @ g) @ ?U) (map fst pgs) = (r @ p @ g) @ ?V"
      by (rule Cons.IH [OF clean rest])
    then show ?thesis using step pg False by simp
  qed
qed

lemma repair_document:
  assumes "markup g0" and "\<forall>(p, g)\<in>set pgs. plain_paragraph p \<and> markup g"
  shows "repair (document g0 pgs)
           = document g0
               (map (\<lambda>(p, g).
                      (if (\<forall>c\<in>set (texts p). is_sep c) \<and> (\<exists>c\<in>set (texts p). \<not> is_ws c)
                       then [] else p, g)) pgs)"
proof -
  have ps: "paragraphs (document g0 pgs) = map fst pgs"
    by (rule paragraphs_document [OF assms])
  have clean: "\<forall>p y. plain_paragraph p \<and> only_separators (texts p)
                 \<longrightarrow> occurs p (g0 @ y) = occurs p y"
    using assms(1) by (auto intro!: occurs_markup simp: plain_paragraph_def)
  have "repair (document g0 pgs)
          = foldl repair_step (g0 @ concat (map (\<lambda>(p, g). p @ g) pgs)) (map fst pgs)"
    unfolding repair_def ps by (simp add: document_def)
  also have "\<dots> = g0 @ concat (map (\<lambda>(p, g). (if only_separators (texts p) then [] else p) @ g) pgs)"
    by (rule repair_pieces [OF clean assms(2)])
  also have "\<dots> = document g0
               (map (\<lambda>(p, g).
                      (if (\<forall>c\<in>set (texts p). is_sep c) \<and> (\<exists>c\<in>set (texts p). \<not> is_ws c)
                       then [] else p, g)) pgs)"
    unfolding document_def only_separators_iff
    by (induction pgs) auto
  finally show ?thesis .
qed

text \<open>The visible text of a paragraph made of text elements.\<close>

lemma match_text_element:
  assumes a: "gt_c \<notin> set a" and t: "lt_c \<notin> set t"
  shows "match_t (text_element a t @ y) = Some (text_element a t, y)"
proof -
  let ?s = "text_element a t @ y"
  have 1: "take 4 ?s = t_open" by (simp add: text_element_def t_open_def)
  have 2: "drop 4 ?s = a @ gt_c # t @ t_close @ y" by (simp add: text_element_def t_open_def)
  have 3: "dropWhile (\<lambda>c. c \<noteq> gt_c) (a @ gt_c # t @ t_close @ y) = gt_c # t @ t_close @ y"
    using a by (rule dropWhile_until)
  have 4: "dropWhile (\<lambda>c. c \<noteq> lt_c) (t @ t_close @ y) = t_close @ y"
    using dropWhile_until [OF t, of "[0x2F, 0x77, 0x3A, 0x74, 0x3E] @ y"]
    by (simp add: t_close_def lt_c_def)
  have 5: "take 6 (t_close @ y) = t_close" "drop 6 (t_close @ y) = y"
    by (simp_all add: t_close_def)
  have 6: "length ?s - length (t_close @ y) + 6 = length (text_element a t)"
    by (simp add: text_element_def t_close_def)
  show ?thesis
    unfolding match_t_def
    by (simp only: 1 2 3 4 5 6 Let_def if_True list.case) simp
qed

lemma strip_tags_text: "lt_c \<notin> set t \<Longrightarrow> strip_tags (t @ z) = t @ strip_tags z"
  by (induction t) auto

lemma strip_tags_text_element:
  assumes a: "gt_c \<notin> set a" and t: "lt_c \<notin> set t"
  shows "strip_tags (text_element a t) = t"
proof -
  let ?cs = "[0x77, 0x3A, 0x74] @ a"
  have r: "text_element a t = lt_c # ?cs @ gt_c # t @ t_close"
    by (simp add: text_element_def t_open_def lt_c_def)
  have n: "gt_c \<notin> set ?cs" using a by (auto simp: gt_c_def)
  have tw: "takeWhile (\<lambda>c. c \<noteq> gt_c) (?cs @ gt_c # t @ t_close) = ?cs"
    using n by (rule takeWhile_until)
  have dw: "dropWhile (\<lambda>c. c \<noteq> gt_c) (?cs @ gt_c # t @ t_close) = gt_c # t @ t_close"
    using n by (rule dropWhile_until)
  have "strip_tags (text_element a t) = strip_tags (t @ t_close)"
    unfolding r by (simp only: strip_tags.simps tw dw) simp
  also have "\<dots> = t @ strip_tags t_close" using t by (rule strip_tags_text)
  also have "strip_tags t_close = []" by (simp add: t_close_def lt_c_def gt_c_def)
  finally show ?thesis by simp
qed

lemma t_matches_free:
  "free_of t_open x \<Longrightarrow> t_matches (x @ y) = t_matches y"
proof (induction x)
  case Nil
  then show ?case by simp
next
  case (Cons c x)
  have l: "length t_open = 4" by (simp add: t_open_def)
  have "take (length t_open) ((c # x) @ y) \<noteq> t_open"
    using Cons.prems by (rule free_of_head) simp
  then have "take 4 (c # x @ y) \<noteq> t_open" unfolding l by (simp only: append_Cons simp_thms)
  then have "match_t (c # x @ y) = None" by (simp add: match_t_def)
  moreover have "free_of t_open x" using Cons.prems by (rule free_of_tl)
  ultimately show ?case using Cons.IH by simp
qed

lemma t_matches_text_element:
  assumes "gt_c \<notin> set a" and "lt_c \<notin> set t"
  shows "t_matches (text_element a t @ y) = text_element a t # t_matches y"
proof -
  have "text_element a t @ y = lt_c # tl (text_element a t) @ y" by (simp add: text_element_def t_open_def lt_c_def)
  moreover have "match_t (text_element a t @ y) = Some (text_element a t, y)" by (rule match_text_element [OF assms])
  ultimately show ?thesis by (metis t_matches.simps(2) option.simps(5) prod.case)
qed

lemma texts_elements:
  assumes "free_of t_open x0"
    and "\<forall>(a, t, x)\<in>set rs. gt_c \<notin> set a \<and> lt_c \<notin> set t \<and> free_of t_open x"
  shows "texts (x0 @ concat (map (\<lambda>(a, t, x). text_element a t @ x) rs)) = concat (map (\<lambda>(a, t, x). t) rs)"
proof -
  have "t_matches (concat (map (\<lambda>(a, t, x). text_element a t @ x) rs)) = map (\<lambda>(a, t, x). text_element a t) rs"
    using assms(2)
  proof (induction rs)
    case Nil
    then show ?case by simp
  next
    case (Cons r rs)
    obtain a t x where r: "r = (a, t, x)" by (cases r)
    from Cons.prems r have a: "gt_c \<notin> set a" and t: "lt_c \<notin> set t" and x: "free_of t_open x"
      by auto
    from Cons.prems have rest: "\<forall>(a, t, x)\<in>set rs. gt_c \<notin> set a \<and> lt_c \<notin> set t \<and> free_of t_open x"
      by simp
    have "t_matches (text_element a t @ x @ concat (map (\<lambda>(a, t, x). text_element a t @ x) rs))
            = text_element a t # t_matches (x @ concat (map (\<lambda>(a, t, x). text_element a t @ x) rs))"
      by (rule t_matches_text_element [OF a t])
    also have "t_matches (x @ concat (map (\<lambda>(a, t, x). text_element a t @ x) rs))
            = t_matches (concat (map (\<lambda>(a, t, x). text_element a t @ x) rs))"
      by (rule t_matches_free [OF x])
    finally show ?case using Cons.IH [OF rest] r by simp
  qed
  then have "t_matches (x0 @ concat (map (\<lambda>(a, t, x). text_element a t @ x) rs)) = map (\<lambda>(a, t, x). text_element a t) rs"
    by (simp only: t_matches_free [OF assms(1)])
  then have "texts (x0 @ concat (map (\<lambda>(a, t, x). text_element a t @ x) rs))
               = concat (map strip_tags (map (\<lambda>(a, t, x). text_element a t) rs))"
    by (simp add: texts_def)
  also have "\<dots> = concat (map (\<lambda>(a, t, x). t) rs)"
    using assms(2) by (induction rs) (auto simp: strip_tags_text_element)
  finally show ?thesis .
qed

text \<open>
  C3, as the code has it. The test of the repair pass holds of a visible text if and only
  if every character of it is a separator (white space, the em dash U+2014, the bullet
  U+2022, the hyphen, the vertical bar) and at least one of them is not white space. In a
  rendered document whose paragraphs do not hold one another, the paragraphs that the pass
  goes through are the paragraphs of the document, and the pass removes exactly those
  whose visible text passes the test: the repaired document is the document without them,
  every other paragraph and all the markup in their places. So a paragraph with a
  character outside the separator class stays, a paragraph of dashes, bullets or bars
  among blanks goes, and a paragraph whose visible text is white space only stays: the
  guard \<^verbatim>\<open>texts.trim()\<close> keeps it. The visible text of a paragraph made of text
  elements is the characters of these elements, in order.
\<close>

theorem repair_removes_separators:
  "(only_separators s \<longleftrightarrow> (\<forall>c\<in>set s. is_sep c) \<and> (\<exists>c\<in>set s. \<not> is_ws c)) \<and>
   (markup g0 \<and> (\<forall>(p, g)\<in>set pgs. plain_paragraph p \<and> markup g) \<longrightarrow>
      paragraphs (document g0 pgs) = map fst pgs \<and>
      repair (document g0 pgs)
        = document g0
            (map (\<lambda>(p, g).
                   (if (\<forall>c\<in>set (texts p). is_sep c) \<and> (\<exists>c\<in>set (texts p). \<not> is_ws c)
                    then [] else p, g)) pgs)) \<and>
   (free_of t_open x0 \<and>
    (\<forall>(a, t, x)\<in>set rs. gt_c \<notin> set a \<and> lt_c \<notin> set t \<and> free_of t_open x) \<longrightarrow>
      texts (x0 @ concat (map (\<lambda>(a, t, x). text_element a t @ x) rs))
        = concat (map (\<lambda>(a, t, x). t) rs))"
proof (intro conjI impI)
  show "only_separators s \<longleftrightarrow> (\<forall>c\<in>set s. is_sep c) \<and> (\<exists>c\<in>set s. \<not> is_ws c)"
    by (rule only_separators_iff)
next
  assume a: "markup g0 \<and> (\<forall>(p, g)\<in>set pgs. plain_paragraph p \<and> markup g)"
  then have m: "markup g0" and ps: "\<forall>(p, g)\<in>set pgs. plain_paragraph p \<and> markup g"
    by blast+
  show "paragraphs (document g0 pgs) = map fst pgs"
    by (rule paragraphs_document [OF m ps])
  show "repair (document g0 pgs)
        = document g0
            (map (\<lambda>(p, g).
                   (if (\<forall>c\<in>set (texts p). is_sep c) \<and> (\<exists>c\<in>set (texts p). \<not> is_ws c)
                    then [] else p, g)) pgs)"
    by (rule repair_document [OF m ps])
next
  assume "free_of t_open x0 \<and>
    (\<forall>(a, t, x)\<in>set rs. gt_c \<notin> set a \<and> lt_c \<notin> set t \<and> free_of t_open x)"
  then show "texts (x0 @ concat (map (\<lambda>(a, t, x). text_element a t @ x) rs))
        = concat (map (\<lambda>(a, t, x). t) rs)"
    by (intro texts_elements) blast+
qed

text \<open>
  The two paragraphs of the specification: one that holds \<^verbatim>\<open>" - "\<close> with an em dash
  goes, and so does its second copy; one that holds \<^verbatim>\<open>"Skills - Python"\<close> with an
  em dash stays, and the markup around the paragraphs stays.
\<close>

theorem repair_removes_separators_witness:
  "only_separators [0x20, 0x2014, 0x20] \<and>
   \<not> only_separators (ascii ''Skills '' @ [0x2014] @ ascii '' Python'') \<and>
   repair (ascii ''<w:body>'' @
           (ascii ''<w:p><w:r><w:t>Skills '' @ [0x2014] @ ascii '' Python</w:t></w:r></w:p>'') @
           (ascii ''<w:p><w:r><w:t> '' @ [0x2014] @ ascii '' </w:t></w:r></w:p>'') @
           ascii ''<w:p><w:r><w:t>Tools | </w:t><w:t>Figma</w:t></w:r></w:p>'' @
           (ascii ''<w:p><w:r><w:t> '' @ [0x2014] @ ascii '' </w:t></w:r></w:p>'') @
           ascii ''<w:sectPr/></w:body>'')
     = ascii ''<w:body>'' @
       (ascii ''<w:p><w:r><w:t>Skills '' @ [0x2014] @ ascii '' Python</w:t></w:r></w:p>'') @
       ascii ''<w:p><w:r><w:t>Tools | </w:t><w:t>Figma</w:t></w:r></w:p>'' @
       ascii ''<w:sectPr/></w:body>'' \<and>
   texts (ascii ''<w:p><w:r><w:t>Tools | </w:t><w:t>Figma</w:t></w:r></w:p>'')
     = ascii ''Tools | Figma''"
proof -
  let ?g0 = "ascii ''<w:body>''"
  let ?g1 = "ascii ''<w:sectPr/></w:body>''"
  let ?p1 = "ascii ''<w:p><w:r><w:t>Skills '' @ [0x2014] @ ascii '' Python</w:t></w:r></w:p>''"
  let ?p2 = "ascii ''<w:p><w:r><w:t> '' @ [0x2014] @ ascii '' </w:t></w:r></w:p>''"
  let ?p3 = "ascii ''<w:p><w:r><w:t>Tools | </w:t><w:t>Figma</w:t></w:r></w:p>''"
  let ?pgs = "[(?p1, []), (?p2, []), (?p3, []), (?p2, ?g1)]"
  have a: "only_separators [0x20, 0x2014, 0x20]"
    using repair_removes_separators [where s = "[0x20, 0x2014, 0x20]"]
    by (simp add: is_sep_def is_ws_def)
  have b: "\<not> only_separators (ascii ''Skills '' @ [0x2014] @ ascii '' Python'')"
    using repair_removes_separators [where s = "ascii ''Skills '' @ [0x2014] @ ascii '' Python''"]
    by (simp add: ascii_def is_sep_def is_ws_def)
  have m0: "markup ?g0" by code_simp
  have m1: "markup ?g1" by code_simp
  have mn: "markup []" by code_simp
  have q1: "plain_paragraph ?p1" by code_simp
  have q2: "plain_paragraph ?p2" by code_simp
  have q3: "plain_paragraph ?p3" by code_simp
  have c1: "((\<forall>c\<in>set (texts ?p1). is_sep c) \<and> (\<exists>c\<in>set (texts ?p1). \<not> is_ws c)) = False"
    by code_simp
  have c2: "((\<forall>c\<in>set (texts ?p2). is_sep c) \<and> (\<exists>c\<in>set (texts ?p2). \<not> is_ws c)) = True"
    by code_simp
  have c3: "((\<forall>c\<in>set (texts ?p3). is_sep c) \<and> (\<exists>c\<in>set (texts ?p3). \<not> is_ws c)) = False"
    by code_simp
  have h: "markup ?g0 \<and> (\<forall>(p, g)\<in>set ?pgs. plain_paragraph p \<and> markup g)"
    using m0 m1 mn q1 q2 q3 by simp
  from repair_removes_separators [where ?g0.0 = ?g0 and pgs = ?pgs] h
  have "repair (document ?g0 ?pgs)
          = document ?g0
              (map (\<lambda>(p, g).
                     (if (\<forall>c\<in>set (texts p). is_sep c) \<and> (\<exists>c\<in>set (texts p). \<not> is_ws c)
                      then [] else p, g)) ?pgs)"
    by blast
  then have c: "repair (?g0 @ ?p1 @ ?p2 @ ?p3 @ ?p2 @ ?g1) = ?g0 @ ?p1 @ ?p3 @ ?g1"
    by (simp only: list.map prod.case c1 c2 c3 if_True if_False document_def concat.simps
                   append_Nil append_Nil2 append_assoc)
  have f0: "free_of t_open (ascii ''<w:p><w:r>'')" by code_simp
  have f1: "free_of t_open []" by code_simp
  have f2: "free_of t_open (ascii ''</w:r></w:p>'')" by code_simp
  have n2: "lt_c \<notin> set (ascii ''Tools | '')" by code_simp
  have n3: "lt_c \<notin> set (ascii ''Figma'')" by code_simp
  let ?rs = "[([]::ustring, ascii ''Tools | '', []::ustring), ([], ascii ''Figma'', ascii ''</w:r></w:p>'')]"
  have k: "free_of t_open (ascii ''<w:p><w:r>'') \<and>
           (\<forall>(a, t, x)\<in>set ?rs. gt_c \<notin> set a \<and> lt_c \<notin> set t \<and> free_of t_open x)"
    using f0 f1 f2 n2 n3 by simp
  have "texts (ascii ''<w:p><w:r>'' @ concat (map (\<lambda>(a, t, x). text_element a t @ x) ?rs))
          = concat (map (\<lambda>(a, t, x). t) ?rs)"
    using repair_removes_separators [where ?x0.0 = "ascii ''<w:p><w:r>''" and rs = ?rs] k
    by blast
  moreover have "ascii ''<w:p><w:r>'' @ concat (map (\<lambda>(a, t, x). text_element a t @ x) ?rs) = ?p3"
    by (simp add: text_element_def t_open_def t_close_def gt_c_def ascii_def)
  moreover have "concat (map (\<lambda>(a, t, x). t) ?rs) = ascii ''Tools | Figma''"
    by (simp add: ascii_def)
  ultimately have d: "texts ?p3 = ascii ''Tools | Figma''" by simp
  show ?thesis using a b c d by (simp only: append_assoc simp_thms)
qed

text \<open>
  The claim as the specification words it fails on a paragraph whose visible text is one
  blank: the text is not empty and every character of it is in the separator class, yet
  the repair pass leaves the document as it is. It fails too on a paragraph that holds an
  en dash U+2013 only, and on one that holds a white bullet U+25E6 only: the class of the
  code has one dash besides the hyphen and one bullet.
\<close>

theorem repair_blank_paragraph_counterexample:
  "paragraphs (ascii ''<w:p><w:r><w:t> </w:t></w:r></w:p>'')
     = [ascii ''<w:p><w:r><w:t> </w:t></w:r></w:p>''] \<and>
   texts (ascii ''<w:p><w:r><w:t> </w:t></w:r></w:p>'') = [0x20] \<and>
   list_all is_sep (texts (ascii ''<w:p><w:r><w:t> </w:t></w:r></w:p>'')) \<and>
   repair (ascii ''<w:p><w:r><w:t> </w:t></w:r></w:p>'')
     = ascii ''<w:p><w:r><w:t> </w:t></w:r></w:p>'' \<and>
   texts (ascii ''<w:p><w:r><w:t>'' @ [0x2013] @ ascii ''</w:t></w:r></w:p>'') = [0x2013] \<and>
   repair (ascii ''<w:p><w:r><w:t>'' @ [0x2013] @ ascii ''</w:t></w:r></w:p>'')
     = ascii ''<w:p><w:r><w:t>'' @ [0x2013] @ ascii ''</w:t></w:r></w:p>'' \<and>
   texts (ascii ''<w:p><w:r><w:t>'' @ [0x25E6] @ ascii ''</w:t></w:r></w:p>'') = [0x25E6] \<and>
   repair (ascii ''<w:p><w:r><w:t>'' @ [0x25E6] @ ascii ''</w:t></w:r></w:p>'')
     = ascii ''<w:p><w:r><w:t>'' @ [0x25E6] @ ascii ''</w:t></w:r></w:p>''"
  by code_simp

section \<open>Properties of the extraction\<close>

text \<open>
  What \<open>fence_match\<close> returns lies between an opening fence, with its optional tag and
  white space, and a closing fence.
\<close>

lemma fence_match_shape:
  assumes "fence_match result = Some inner"
  shows "\<exists>pre tag ws post. result = pre @ fence @ tag @ ws @ inner @ fence @ post \<and>
           (tag = json_tag \<or> tag = []) \<and> (\<forall>c\<in>set ws. is_ws c)"
proof -
  from assms obtain pre rest where
    1: "split_first fence result = Some (pre, rest)"
    by (auto simp: fence_match_def split: option.splits)
  define tag where "tag = (if take 4 rest = json_tag then json_tag else [])"
  define rest1 where "rest1 = (if take 4 rest = json_tag then drop 4 rest else rest)"
  from assms 1 obtain post where
    2: "split_first fence (dropWhile is_ws rest1) = Some (inner, post)"
    by (auto simp: fence_match_def Let_def rest1_def split: option.splits)
  have r: "rest = tag @ rest1"
  proof (cases "take 4 rest = json_tag")
    case True
    have "rest = take 4 rest @ drop 4 rest" by (simp only: append_take_drop_id)
    with True show ?thesis by (simp add: tag_def rest1_def)
  next
    case False
    then show ?thesis by (simp add: tag_def rest1_def)
  qed
  have w: "rest1 = takeWhile is_ws rest1 @ dropWhile is_ws rest1" by simp
  have d: "dropWhile is_ws rest1 = inner @ fence @ post"
    by (rule split_first_Some [OF 2])
  have "result = pre @ fence @ rest" by (rule split_first_Some [OF 1])
  also have "rest = tag @ takeWhile is_ws rest1 @ inner @ fence @ post"
    using r w d by simp
  finally have e: "result = pre @ fence @ tag @ takeWhile is_ws rest1 @ inner @ fence @ post" .
  have t: "tag = json_tag \<or> tag = []" by (simp add: tag_def)
  have s: "\<forall>c\<in>set (takeWhile is_ws rest1). is_ws c"
    by (auto dest: set_takeWhileD)
  from e t s show ?thesis by blast
qed

text \<open>
  The first fence of the text opens the block, and the first fence behind it closes it.
\<close>

lemma not_ws_backquote: "\<not> is_ws 0x60"
  by (simp add: is_ws_def)

lemma dropWhile_ws_fence:
  "dropWhile is_ws (inner @ fence @ post) = dropWhile is_ws inner @ fence @ post"
proof (cases "\<forall>c\<in>set inner. is_ws c")
  case True
  then have "dropWhile is_ws (inner @ fence @ post) = dropWhile is_ws (fence @ post)"
    by (simp add: dropWhile_append2)
  also have "\<dots> = fence @ post" by (simp add: fence_def not_ws_backquote)
  finally show ?thesis using True by simp
next
  case False
  then obtain x where "x \<in> set inner" and "\<not> is_ws x" by blast
  then show ?thesis by (rule dropWhile_append1)
qed

lemma no_tag:
  assumes "take 4 inner \<noteq> json_tag"
  shows "take 4 (inner @ fence @ post) \<noteq> json_tag"
proof (cases "4 \<le> length inner")
  case True
  then show ?thesis using assms by simp
next
  case False
  then have l: "length inner < 4" by simp
  show ?thesis
  proof
    assume e: "take 4 (inner @ fence @ post) = json_tag"
    have "take 4 (inner @ fence @ post) ! length inner = (inner @ fence @ post) ! length inner"
      by (rule nth_take [OF l])
    also have "\<dots> = 0x60" by (simp add: nth_append fence_def)
    finally have "json_tag ! length inner = 0x60" using e by simp
    moreover from l have "length inner = 0 \<or> length inner = 1 \<or> length inner = 2 \<or> length inner = 3"
      by arith
    ultimately show False by (auto simp: json_tag_def)
  qed
qed

lemma fence_nonempty: "fence \<noteq> []" by (simp add: fence_def)

lemma fence_match_first:
  assumes r: "result = pre @ fence @ tag @ inner @ fence @ post"
    and p: "\<not> occurs fence (pre @ butlast fence)"
    and c: "\<not> occurs fence (inner @ butlast fence)"
    and t: "tag = json_tag \<or> tag = [] \<and> take 4 inner \<noteq> json_tag"
  shows "fence_match result = Some (dropWhile is_ws inner)"
proof -
  have 1: "split_first fence result = Some (pre, tag @ inner @ fence @ post)"
    unfolding r by (rule split_first_first [OF fence_nonempty p])
  have 2: "(if take 4 (tag @ inner @ fence @ post) = json_tag
            then drop 4 (tag @ inner @ fence @ post) else tag @ inner @ fence @ post)
           = inner @ fence @ post"
  proof (cases "tag = json_tag")
    case True
    then show ?thesis by (simp add: json_tag_def)
  next
    case False
    with t have "tag = []" and "take 4 inner \<noteq> json_tag" by auto
    then show ?thesis using no_tag [of inner post] by simp
  qed
  have "dropWhile is_ws inner @ butlast fence
          = drop (length (takeWhile is_ws inner)) (inner @ butlast fence)"
    by (simp add: dropWhile_eq_drop length_takeWhile_le)
  with c have "\<not> occurs fence (dropWhile is_ws inner @ butlast fence)"
    using occurs_drop [of fence "length (takeWhile is_ws inner)" "inner @ butlast fence"] by auto
  then have 3: "split_first fence (dropWhile is_ws inner @ fence @ post)
                  = Some (dropWhile is_ws inner, post)"
    by (rule split_first_first [OF fence_nonempty])
  show ?thesis
    unfolding fence_match_def by (simp only: 1 2 3 dropWhile_ws_fence Let_def option.case prod.case option.map fst_conv)
qed

lemma trim_dropWhile: "trim (dropWhile is_ws s) = trim s"
  by (simp add: trim_def)

lemma fence_match_unclosed:
  assumes r: "result = pre @ fence @ rest"
    and p: "\<not> occurs fence (pre @ butlast fence)"
    and c: "\<not> occurs fence rest"
  shows "fence_match result = None"
proof -
  have 1: "split_first fence result = Some (pre, rest)"
    unfolding r by (rule split_first_first [OF fence_nonempty p])
  have n: "\<And>k. \<not> occurs fence (drop k rest)" using c occurs_drop by blast
  have 2: "\<not> occurs fence (dropWhile is_ws s)" if "\<not> occurs fence s" for s
    using that occurs_drop [of fence "length (takeWhile is_ws s)" s]
    by (auto simp: dropWhile_eq_drop)
  have "split_first fence (dropWhile is_ws (if take 4 rest = json_tag then drop 4 rest else rest)) = None"
    unfolding split_first_None using 2 n c by simp
  then show ?thesis unfolding fence_match_def by (simp add: 1 Let_def)
qed

lemma fence_match_none: "\<not> occurs fence result \<Longrightarrow> fence_match result = None"
  by (simp add: fence_match_def split_first_None [symmetric])

text \<open>
  C1, as the code has it, for every raw model text and every parser. The block that counts
  is the first one: when the text is \<open>pre\<close>, a fence, the tag \<^verbatim>\<open>json\<close> in small
  letters or no tag, the content \<open>inner\<close>, a fence and \<open>post\<close>, where no fence begins
  before the first and none begins in the content, the extraction is the parse of the
  trimmed content: the parsed value when that parses, and otherwise the failure that
  carries the raw text unchanged, without a second attempt on the whole text or on a later
  block. When the text holds no fence, or holds one fence and none behind it, the
  extraction is in the same way the parse of the trimmed text. For a parser that ignores
  outer white space, as \<^verbatim>\<open>JSON.parse\<close> does, a content, or a text, that parses as it
  is gives the parsed value.
\<close>

theorem extract_first_fence:
  "(result = pre @ fence @ tag @ inner @ fence @ post \<and>
    \<not> occurs fence (pre @ butlast fence) \<and> \<not> occurs fence (inner @ butlast fence) \<and>
    (tag = json_tag \<or> tag = [] \<and> take 4 inner \<noteq> json_tag)
      \<longrightarrow> extract_result parse result
            = (case parse (trim inner) of
                 Some v \<Rightarrow> Inr v | None \<Rightarrow> Inl (ExtractionFailed result)) \<and>
          (ignores_outer_space parse \<and> parse inner = Some v
             \<longrightarrow> extract_result parse result = Inr v)) \<and>
   (\<not> occurs fence result \<or>
    result = pre @ fence @ post \<and> \<not> occurs fence (pre @ butlast fence) \<and> \<not> occurs fence post
      \<longrightarrow> extract_result parse result
            = (case parse (trim result) of
                 Some v \<Rightarrow> Inr v | None \<Rightarrow> Inl (ExtractionFailed result)) \<and>
          (ignores_outer_space parse \<and> parse result = Some v
             \<longrightarrow> extract_result parse result = Inr v))"
proof (intro conjI impI)
  assume a: "result = pre @ fence @ tag @ inner @ fence @ post \<and>
    \<not> occurs fence (pre @ butlast fence) \<and> \<not> occurs fence (inner @ butlast fence) \<and>
    (tag = json_tag \<or> tag = [] \<and> take 4 inner \<noteq> json_tag)"
  then have "fence_match result = Some (dropWhile is_ws inner)"
    by (elim conjE) (rule fence_match_first)
  then have j: "trim (jsonMatch1 result) = trim inner"
    by (simp add: jsonMatch1_def trim_dropWhile)
  show "extract_result parse result
            = (case parse (trim inner) of
                 Some v \<Rightarrow> Inr v | None \<Rightarrow> Inl (ExtractionFailed result))"
    unfolding extract_result_def j by (simp split: option.splits)
  assume "ignores_outer_space parse \<and> parse inner = Some v"
  then have "parse (trim inner) = Some v" unfolding ignores_outer_space_def by blast
  then show "extract_result parse result = Inr v"
    unfolding extract_result_def j by simp
next
  assume "\<not> occurs fence result \<or>
    result = pre @ fence @ post \<and> \<not> occurs fence (pre @ butlast fence) \<and> \<not> occurs fence post"
  then have "fence_match result = None"
  proof
    assume "\<not> occurs fence result"
    then show ?thesis by (rule fence_match_none)
  next
    assume "result = pre @ fence @ post \<and> \<not> occurs fence (pre @ butlast fence) \<and> \<not> occurs fence post"
    then show ?thesis by (elim conjE) (rule fence_match_unclosed)
  qed
  then have j: "trim (jsonMatch1 result) = trim result"
    by (simp add: jsonMatch1_def)
  show "extract_result parse result
            = (case parse (trim result) of
                 Some v \<Rightarrow> Inr v | None \<Rightarrow> Inl (ExtractionFailed result))"
    unfolding extract_result_def j by (simp split: option.splits)
  assume "ignores_outer_space parse \<and> parse result = Some v"
  then have "parse (trim result) = Some v" unfolding ignores_outer_space_def by blast
  then show "extract_result parse result = Inr v"
    unfolding extract_result_def j by simp
qed

text \<open>
  A block with the tag, a bare text, a text that is no JSON, a block whose content does not
  parse in front of a text that does, a fence that is not closed, and a block without tag.
\<close>

theorem extract_first_fence_witness:
  "extract_result parse_examples (ascii ''Here it is: ```json\<newline>{}\<newline>``` Done.'')
     = Inr (JObj Map.empty) \<and>
   extract_result parse_examples (ascii '' {}\<newline>'') = Inr (JObj Map.empty) \<and>
   extract_result parse_examples (ascii ''I cannot help with that.'')
     = Inl (ExtractionFailed (ascii ''I cannot help with that.'')) \<and>
   extract_result parse_examples (ascii ''```{``` {}'')
     = Inl (ExtractionFailed (ascii ''```{``` {}'')) \<and>
   extract_result parse_examples (ascii ''``` {}'')
     = Inl (ExtractionFailed (ascii ''``` {}'')) \<and>
   extract_result parse_examples (ascii ''```null```'') = Inr JNull"
proof -
  let ?fenced = "ascii ''Here it is: ```json\<newline>{}\<newline>``` Done.''"
  let ?bare = "ascii '' {}\<newline>''"
  let ?garbage = "ascii ''I cannot help with that.''"
  let ?broken = "ascii ''```{``` {}''"
  let ?unclosed = "ascii ''``` {}''"
  have ok: "parse_examples (ascii ''{}'') = Some (JObj Map.empty)"
    by (simp add: parse_examples_def)
  have s1: "?fenced = ascii ''Here it is: '' @ fence @ json_tag @ ascii ''\<newline>{}\<newline>'' @ fence @ ascii '' Done.''"
    by (simp add: ascii_def fence_def json_tag_def)
  have n1: "\<not> occurs fence (ascii ''Here it is: '' @ butlast fence)" by code_simp
  have m1: "\<not> occurs fence (ascii ''\<newline>{}\<newline>'' @ butlast fence)" by code_simp
  have t1: "trim (ascii ''\<newline>{}\<newline>'') = ascii ''{}''" by code_simp
  have a: "extract_result parse_examples ?fenced = Inr (JObj Map.empty)"
    using extract_first_fence [where result = ?fenced and pre = "ascii ''Here it is: ''"
        and tag = json_tag and inner = "ascii ''\<newline>{}\<newline>''" and post = "ascii '' Done.''"
        and parse = parse_examples]
      s1 n1 m1
    by (simp add: t1 ok)
  have n2: "\<not> occurs fence ?bare" by code_simp
  have t2: "trim ?bare = ascii ''{}''" by code_simp
  have b: "extract_result parse_examples ?bare = Inr (JObj Map.empty)"
    using extract_first_fence [where result = ?bare and parse = parse_examples] n2
    by (simp add: t2 ok)
  have n3: "\<not> occurs fence ?garbage" by code_simp
  have t3: "trim ?garbage = ?garbage" by code_simp
  have p3: "parse_examples ?garbage = None"
    by (simp add: parse_examples_def ascii_def)
  have c: "extract_result parse_examples ?garbage = Inl (ExtractionFailed ?garbage)"
    using extract_first_fence [where result = ?garbage and parse = parse_examples] n3
    by (simp add: t3 p3)
  have s4: "?broken = [] @ fence @ [] @ ascii ''{'' @ fence @ ascii '' {}''"
    by (simp add: ascii_def fence_def)
  have n4: "\<not> occurs fence ([] @ butlast fence)" by code_simp
  have m4: "\<not> occurs fence (ascii ''{'' @ butlast fence)" by code_simp
  have g4: "take 4 (ascii ''{'') \<noteq> json_tag" by code_simp
  have t4: "trim (ascii ''{'') = ascii ''{''" by code_simp
  have p4: "parse_examples (ascii ''{'') = None"
    by (simp add: parse_examples_def ascii_def)
  have d: "extract_result parse_examples ?broken = Inl (ExtractionFailed ?broken)"
    using extract_first_fence [where result = ?broken and pre = "[]"
        and tag = "[]" and inner = "ascii ''{''" and post = "ascii '' {}''"
        and parse = parse_examples]
      s4 n4 m4 g4
    by (simp add: t4 p4)
  have s5: "?unclosed = [] @ fence @ ascii '' {}''"
    by (simp add: ascii_def fence_def)
  have m5: "\<not> occurs fence (ascii '' {}'')" by code_simp
  have t5: "trim ?unclosed = ?unclosed" by code_simp
  have p5: "parse_examples ?unclosed = None"
    by (simp add: parse_examples_def ascii_def)
  have h5: "\<not> occurs fence ?unclosed \<or>
            ?unclosed = [] @ fence @ ascii '' {}'' \<and> \<not> occurs fence ([] @ butlast fence) \<and>
            \<not> occurs fence (ascii '' {}'')"
    using s5 n4 m5 by blast
  from extract_first_fence [where result = ?unclosed and pre = "[]" and post = "ascii '' {}''"
        and parse = parse_examples] h5
  have "extract_result parse_examples ?unclosed
          = (case parse_examples (trim ?unclosed) of
               Some v \<Rightarrow> Inr v | None \<Rightarrow> Inl (ExtractionFailed ?unclosed))"
    by blast
  then have e: "extract_result parse_examples ?unclosed = Inl (ExtractionFailed ?unclosed)"
    by (simp only: t5 p5 option.case)
  have s6: "ascii ''```null```'' = [] @ fence @ [] @ ascii ''null'' @ fence @ []"
    by (simp add: ascii_def fence_def)
  have m6: "\<not> occurs fence (ascii ''null'' @ butlast fence)" by code_simp
  have g6: "take 4 (ascii ''null'') \<noteq> json_tag" by code_simp
  have p6: "parse_examples (ascii ''null'') = Some JNull"
    by (simp add: parse_examples_def) (simp add: ascii_def)
  have f: "extract_result parse_examples (ascii ''```null```'') = Inr JNull"
    using extract_first_fence [where result = "ascii ''```null```''" and pre = "[]"
        and tag = "[]" and inner = "ascii ''null''" and post = "[]"
        and parse = parse_examples and v = JNull]
      s6 n4 m6 g6 parse_examples_ignores_outer_space p6
    by blast
  show ?thesis using a b c d e f by blast
qed

text \<open>
  The claim as the specification words it fails on a text that holds a block with valid
  JSON behind another block, and on a block whose tag is written in capitals: the
  extraction parses the content of the first block, and takes the tag for content.
\<close>

theorem extract_later_block_counterexample:
  "ascii ''```\<newline>draft\<newline>```\<newline>```json\<newline>{}\<newline>```''
     = ascii ''```\<newline>draft\<newline>```\<newline>'' @ fence @ json_tag @ ascii ''\<newline>{}\<newline>'' @ fence \<and>
   ascii ''```JSON\<newline>{}\<newline>```'' = fence @ ascii ''JSON'' @ ascii ''\<newline>{}\<newline>'' @ fence \<and>
   parse_examples (trim (ascii ''\<newline>{}\<newline>'')) = Some (JObj Map.empty) \<and>
   extract_result parse_examples (ascii ''```\<newline>draft\<newline>```\<newline>```json\<newline>{}\<newline>```'')
     = Inl (ExtractionFailed (ascii ''```\<newline>draft\<newline>```\<newline>```json\<newline>{}\<newline>```'')) \<and>
   extract_result parse_examples (ascii ''```JSON\<newline>{}\<newline>```'')
     = Inl (ExtractionFailed (ascii ''```JSON\<newline>{}\<newline>```''))"
proof -
  let ?two = "ascii ''```\<newline>draft\<newline>```\<newline>```json\<newline>{}\<newline>```''"
  let ?upper = "ascii ''```JSON\<newline>{}\<newline>```''"
  have a: "?two = ascii ''```\<newline>draft\<newline>```\<newline>'' @ fence @ json_tag @ ascii ''\<newline>{}\<newline>'' @ fence"
    by (simp add: ascii_def fence_def json_tag_def)
  have b: "?upper = fence @ ascii ''JSON'' @ ascii ''\<newline>{}\<newline>'' @ fence"
    by (simp add: ascii_def fence_def)
  have t: "trim (ascii ''\<newline>{}\<newline>'') = ascii ''{}''" by code_simp
  have c: "parse_examples (trim (ascii ''\<newline>{}\<newline>'')) = Some (JObj Map.empty)"
    unfolding t by (simp add: parse_examples_def)
  have j1: "trim (jsonMatch1 ?two) = ascii ''draft''" by code_simp
  have p1: "parse_examples (ascii ''draft'') = None"
    by (simp add: parse_examples_def ascii_def)
  have d: "extract_result parse_examples ?two = Inl (ExtractionFailed ?two)"
    unfolding extract_result_def j1 p1 by simp
  have j2: "trim (jsonMatch1 ?upper) = ascii ''JSON\<newline>{}''" by code_simp
  have p2: "parse_examples (ascii ''JSON\<newline>{}'') = None"
    by (simp add: parse_examples_def ascii_def)
  have e: "extract_result parse_examples ?upper = Inl (ExtractionFailed ?upper)"
    unfolding extract_result_def j2 p2 by simp
  show ?thesis using a b c d e by blast
qed

section \<open>Failing requests\<close>

text \<open>
  C9. Whenever one of the five handlers answers with an error, whatever the error (a
  missing \<^verbatim>\<open>jobId\<close>, a job or session that is not found, a blank answer, a session
  that is complete, a model call that throws, a reply that does not parse), the data files
  after the request are the data files before it.
\<close>

theorem failure_leaves_store:
  "(tailor parse e st jobId = (Failure c m r, st', n) \<longrightarrow> st' = st) \<and>
   (generate_cover_letter parse e st jobId = (Failure c m r, st', n) \<longrightarrow> st' = st) \<and>
   (start parse e st jid = (Failure c m r, st', n) \<longrightarrow> st' = st) \<and>
   (respond parse e st jid sid answer = (Failure c m r, st', n) \<longrightarrow> st' = st) \<and>
   (end_interview parse e st jid sid = (Failure c m r, st', n) \<longrightarrow> st' = st)"
proof (intro conjI impI)
  assume "tailor parse e st jobId = (Failure c m r, st', n)"
  then show "st' = st"
    by (auto simp: tailor_def Let_def split: if_splits option.splits sum.splits prod.splits)
next
  assume "generate_cover_letter parse e st jobId = (Failure c m r, st', n)"
  then show "st' = st"
    by (auto simp: generate_cover_letter_def Let_def
             split: if_splits option.splits sum.splits prod.splits)
next
  assume "start parse e st jid = (Failure c m r, st', n)"
  then show "st' = st"
    by (auto simp: start_def split: if_splits option.splits sum.splits)
next
  assume "respond parse e st jid sid answer = (Failure c m r, st', n)"
  then show "st' = st"
    by (auto simp: respond_def split: if_splits option.splits sum.splits jsval.splits)
next
  assume "end_interview parse e st jid sid = (Failure c m r, st', n)"
  then show "st' = st"
    by (auto simp: end_interview_def split: if_splits option.splits sum.splits)
qed

text \<open>
  A resume request whose reply does not parse, and an answer to a session that does not
  exist: both fail and leave the data files alone.
\<close>

theorem failure_leaves_store_witness:
  "fst (tailor parse_examples env_refused store2 (JStr (ascii ''job-1'')))
     = Failure 500 ''Failed to parse tailored resume'' (Some (ascii ''Sorry.'')) \<and>
   fst (snd (tailor parse_examples env_refused store2 (JStr (ascii ''job-1'')))) = store2 \<and>
   fst (respond parse_examples env1 store2 (ascii ''job-1'') (ascii ''s-9'') (JStr (ascii ''Yes'')))
     = Failure 404 ''Interview session not found'' None \<and>
   fst (snd (respond parse_examples env1 store2 (ascii ''job-1'') (ascii ''s-9'')
               (JStr (ascii ''Yes'')))) = store2"
proof -
  let ?t = "tailor parse_examples env_refused store2 (JStr (ascii ''job-1''))"
  let ?r = "respond parse_examples env1 store2 (ascii ''job-1'') (ascii ''s-9'')
              (JStr (ascii ''Yes''))"
  have j: "List.find (\<lambda>j. strict_eq (get_prop j ''id'') (JStr (ascii ''job-1''))) (jobs store2)
             = Some job1"
    by (simp add: store2_def store1_def job1_def get_prop_def)
  have ft: "fst ?t = Failure 500 ''Failed to parse tailored resume'' (Some (ascii ''Sorry.''))"
    by (simp add: tailor_def j env_refused_def env1_def extract_refused) (simp add: ascii_def)
  have y: "trim [0x59, 0x65, 0x73] = [0x59, 0x65, 0x73]" by code_simp
  have fr: "fst ?r = Failure 404 ''Interview session not found'' None"
    by (simp add: respond_def find_session_def store2_def done_session_def ascii_def y)
  obtain st' n where t: "?t = (Failure 500 ''Failed to parse tailored resume'' (Some (ascii ''Sorry.'')), st', n)"
    using ft by (cases ?t) auto
  obtain st'' n' where r: "?r = (Failure 404 ''Interview session not found'' None, st'', n')"
    using fr by (cases ?r) auto
  have "st' = store2"
    using failure_leaves_store [of parse_examples env_refused store2 "JStr (ascii ''job-1'')"
                                   500 "''Failed to parse tailored resume''" "Some (ascii ''Sorry.'')" st' n]
      t by blast
  moreover have "st'' = store2"
    using failure_leaves_store [of parse_examples env1 store2 _ 404
                                   "''Interview session not found''" None st'' n'
                                   "ascii ''job-1''" "ascii ''s-9''" "JStr (ascii ''Yes'')"]
      r by blast
  ultimately show ?thesis using ft fr t r by simp
qed

section \<open>The session that is complete\<close>

text \<open>
  C6, as the code has it. On a session whose \<^verbatim>\<open>completedAt\<close> is set, every
  \<^verbatim>\<open>respond\<close> whose answer is a string with a character that is not white space fails
  with status 400 and the message of the complete session, calls the model zero times and
  leaves the data files, the session among them, as they were.
\<close>

theorem respond_after_complete:
  "find_session jobId sid (interviews st) = Some k \<Longrightarrow>
   truthy (completedAt (interviews st ! k)) \<Longrightarrow>
   trim a \<noteq> [] \<Longrightarrow>
   respond parse e st jobId sid (JStr a)
     = (Failure 400 ''This interview session is already complete'' None, st, 0)"
  by (auto simp: respond_def trim_Nil)

theorem respond_after_complete_witness:
  "respond parse_examples env1 store2 (ascii ''job-1'') (ascii ''s-1'')
     (JStr (ascii ''I led a team.''))
     = (Failure 400 ''This interview session is already complete'' None, store2, 0)"
proof -
  have t: "trim (ascii ''I led a team.'') \<noteq> []" by code_simp
  have c: "truthy (completedAt (interviews store2 ! 0))"
    by (simp add: store2_def done_session_def ascii_def)
  show ?thesis using respond_after_complete [OF find_done_session c t] .
qed

text \<open>
  The answer is checked before the session is looked up: a blank answer to a complete
  session fails as a blank answer, not as an answer to a complete session.
\<close>

theorem respond_blank_counterexample:
  "truthy (completedAt done_session) \<and>
   find_session (ascii ''job-1'') (ascii ''s-1'') (interviews store2) = Some 0 \<and>
   interviews store2 ! 0 = done_session \<and>
   respond parse_examples env1 store2 (ascii ''job-1'') (ascii ''s-1'') (JStr (ascii '' ''))
     = (Failure 400 ''Answer is required'' None, store2, 0)"
proof -
  have t: "trim [0x20] = []" by code_simp
  show ?thesis
    by (simp add: respond_def t find_session_def store2_def done_session_def ascii_def)
qed

text \<open>
  C7 at a session that is complete: \<^verbatim>\<open>end\<close> has no test of \<^verbatim>\<open>completedAt\<close>, the
  test that \<^verbatim>\<open>respond\<close> makes. The second \<^verbatim>\<open>end\<close> succeeds, calls the model once
  and replaces the stored assessment and the time of completion.
\<close>

theorem end_interview_twice:
  "completedAt done_session = JStr (ascii ''2026-01-01T09:30:00.000Z'') \<and>
   feedback done_session = JObj (Map.empty(''overallScore'' \<mapsto> JNum 7)) \<and>
   end_interview parse_examples env1 store2 (ascii ''job-1'') (ascii ''s-1'')
     = (Success (done_session\<lparr>feedback := JObj Map.empty,
                                 completedAt := JStr (ascii ''2026-01-02T10:00:00.000Z'')\<rparr>),
        store2\<lparr>interviews := [done_session\<lparr>feedback := JObj Map.empty,
                                 completedAt := JStr (ascii ''2026-01-02T10:00:00.000Z'')\<rparr>]\<rparr>,
        1)"
  by (simp add: end_interview_def find_done_session env1_def extract_empty_object complete_def)
    (simp add: store2_def done_session_def)

section \<open>Properties of the interview sessions\<close>

lemma find_index_Some:
  "find_index P xs = Some k \<Longrightarrow> k < length xs \<and> P (xs ! k)"
  by (induction xs arbitrary: k) (auto split: if_splits)

lemma find_index_update:
  "find_index P xs = Some k \<Longrightarrow> P y \<Longrightarrow> find_index P (xs[k := y]) = Some k"
  by (induction xs arbitrary: k) (auto split: if_splits)

lemma find_index_append_new:
  "\<forall>x\<in>set xs. \<not> P x \<Longrightarrow> P y \<Longrightarrow> find_index P (xs @ [y]) = Some (length xs)"
  by (induction xs) auto

lemma alternates_append:
  "alternates r (xs @ ys) \<longleftrightarrow>
     alternates r xs \<and> alternates (if even (length xs) then r else other r) ys"
proof (induction xs arbitrary: r)
  case Nil
  then show ?case by simp
next
  case (Cons x xs)
  have "other (other r) = r" by (cases r) simp_all
  with Cons show ?case by auto
qed

lemma session_inv_new: "session_inv (new_session e jobId parsed)"
  by (simp add: session_inv_def new_session_def)

lemma session_inv_add_turn: "session_inv s \<Longrightarrow> session_inv (add_turn s a parsed)"
  by (auto simp: session_inv_def add_turn_def alternates_append)

lemma session_inv_complete: "session_inv s \<Longrightarrow> session_inv (complete e s parsed)"
  by (simp add: session_inv_def complete_def)

lemma start_shape:
  "start parse e st jobId = (r, st', n) \<Longrightarrow>
   (st' = st \<and> (\<forall>s. r \<noteq> Success s)) \<or>
   (\<exists>parsed. r = Success (new_session e jobId parsed) \<and>
      st' = st\<lparr>interviews := interviews st @ [new_session e jobId parsed]\<rparr>)"
  by (auto simp: start_def split: option.splits sum.splits if_splits)

lemma respond_shape:
  "respond parse e st jobId sid answer = (r, st', n) \<Longrightarrow>
   (st' = st \<and> (\<forall>s. r \<noteq> Success s)) \<or>
   (\<exists>k a parsed. find_session jobId sid (interviews st) = Some k \<and>
      r = Success (add_turn (interviews st ! k) a parsed) \<and>
      st' = st\<lparr>interviews := (interviews st)[k := add_turn (interviews st ! k) a parsed]\<rparr>)"
  by (auto simp: respond_def split: option.splits sum.splits if_splits jsval.splits)

lemma end_shape:
  "end_interview parse e st jobId sid = (r, st', n) \<Longrightarrow>
   (st' = st \<and> (\<forall>s. r \<noteq> Success s)) \<or>
   (\<exists>k parsed. find_session jobId sid (interviews st) = Some k \<and>
      r = Success (complete e (interviews st ! k) parsed) \<and>
      st' = st\<lparr>interviews := (interviews st)[k := complete e (interviews st ! k) parsed]\<rparr>)"
  by (auto simp: end_interview_def split: option.splits sum.splits if_splits)

lemma inv_update:
  "\<forall>s\<in>set xs. session_inv s \<Longrightarrow> session_inv y \<Longrightarrow> \<forall>s\<in>set (xs[k := y]). session_inv s"
  using set_update_subset_insert [of xs k y] by auto

lemma handle_inv:
  assumes "\<forall>s\<in>set (interviews st). session_inv s"
  shows "\<forall>s\<in>set (interviews (handle parse st req)). session_inv s"
proof -
  obtain e q where req: "req = (e, q)" by (cases req)
  show ?thesis
  proof (cases q)
    case (Start jobId)
    obtain r st' n where h: "start parse e st jobId = (r, st', n)"
      by (cases "start parse e st jobId")
    from start_shape [OF h] assms show ?thesis
      by (auto simp: req Start h session_inv_new)
  next
    case (Respond jobId sid answer)
    obtain r st' n where h: "respond parse e st jobId sid answer = (r, st', n)"
      by (cases "respond parse e st jobId sid answer")
    from respond_shape [OF h] show ?thesis
    proof
      assume "st' = st \<and> (\<forall>s. r \<noteq> Success s)"
      with assms show ?thesis by (simp add: req Respond h)
    next
      assume "\<exists>k a parsed. find_session jobId sid (interviews st) = Some k \<and>
        r = Success (add_turn (interviews st ! k) a parsed) \<and>
        st' = st\<lparr>interviews := (interviews st)[k := add_turn (interviews st ! k) a parsed]\<rparr>"
      then obtain k a parsed where
        f: "find_session jobId sid (interviews st) = Some k" and
        s: "st' = st\<lparr>interviews := (interviews st)[k := add_turn (interviews st ! k) a parsed]\<rparr>"
        by blast
      from f have "k < length (interviews st)"
        by (auto simp: find_session_def dest: find_index_Some)
      with assms have "session_inv (interviews st ! k)" by simp
      then have "session_inv (add_turn (interviews st ! k) a parsed)"
        by (rule session_inv_add_turn)
      with assms have "\<forall>s\<in>set ((interviews st)[k := add_turn (interviews st ! k) a parsed]).
                         session_inv s"
        by (rule inv_update)
      then show ?thesis by (simp add: req Respond h s)
    qed
  next
    case (End jobId sid)
    obtain r st' n where h: "end_interview parse e st jobId sid = (r, st', n)"
      by (cases "end_interview parse e st jobId sid")
    from end_shape [OF h] show ?thesis
    proof
      assume "st' = st \<and> (\<forall>s. r \<noteq> Success s)"
      with assms show ?thesis by (simp add: req End h)
    next
      assume "\<exists>k parsed. find_session jobId sid (interviews st) = Some k \<and>
        r = Success (complete e (interviews st ! k) parsed) \<and>
        st' = st\<lparr>interviews := (interviews st)[k := complete e (interviews st ! k) parsed]\<rparr>"
      then obtain k parsed where
        f: "find_session jobId sid (interviews st) = Some k" and
        s: "st' = st\<lparr>interviews := (interviews st)[k := complete e (interviews st ! k) parsed]\<rparr>"
        by blast
      from f have "k < length (interviews st)"
        by (auto simp: find_session_def dest: find_index_Some)
      with assms have "session_inv (interviews st ! k)" by simp
      then have "session_inv (complete e (interviews st ! k) parsed)"
        by (rule session_inv_complete)
      with assms have "\<forall>s\<in>set ((interviews st)[k := complete e (interviews st ! k) parsed]).
                         session_inv s"
        by (rule inv_update)
      then show ?thesis by (simp add: req End h s)
    qed
  qed
qed

lemma run_inv:
  "\<forall>s\<in>set (interviews st). session_inv s \<Longrightarrow>
   \<forall>s\<in>set (interviews (foldl (handle parse) st reqs)). session_inv s"
proof (induction reqs arbitrary: st)
  case Nil
  then show ?case by simp
next
  case (Cons req reqs)
  from Cons.prems have "\<forall>s\<in>set (interviews (handle parse st req)). session_inv s"
    by (rule handle_inv)
  then show ?case using Cons.IH by simp
qed

lemma respond_all_counts:
  "find_session jobId sid (interviews st) = Some k \<Longrightarrow>
   respond_all parse st jobId sid turns = Some st2 \<Longrightarrow>
   find_session jobId sid (interviews st2) = Some k \<and>
   questionCount (interviews st2 ! k) = questionCount (interviews st ! k) + length turns \<and>
   length (messages (interviews st2 ! k)) = length (messages (interviews st ! k)) + 2 * length turns"
proof (induction turns arbitrary: st)
  case Nil
  then show ?case by simp
next
  case (Cons turn turns)
  obtain e answer where turn: "turn = (e, answer)" by (cases turn)
  obtain r st' n where h: "respond parse e st jobId sid answer = (r, st', n)"
    by (cases "respond parse e st jobId sid answer")
  from Cons.prems(2) obtain s where r: "r = Success s"
    and rest: "respond_all parse st' jobId sid turns = Some st2"
    by (cases r) (auto simp: turn h)
  from respond_shape [OF h] r Cons.prems(1) obtain a parsed where
    st': "st' = st\<lparr>interviews := (interviews st)[k := add_turn (interviews st ! k) a parsed]\<rparr>"
    by auto
  from Cons.prems(1) have k: "k < length (interviews st)"
    and P: "id_s (interviews st ! k) = sid \<and> jobId_s (interviews st ! k) = jobId"
    by (auto simp: find_session_def dest: find_index_Some)
  have f': "find_session jobId sid (interviews st') = Some k"
    using Cons.prems(1) P
    by (simp add: find_session_def st' find_index_update add_turn_def)
  from Cons.IH [OF f' rest] k show ?case
    by (simp add: st' add_turn_def)
qed

lemma respond_success:
  "find_session jobId sid (interviews st) = Some k \<Longrightarrow>
   \<not> truthy (completedAt (interviews st ! k)) \<Longrightarrow>
   trim a \<noteq> [] \<Longrightarrow> reply e = Some r \<Longrightarrow> extract_result parse r = Inr p \<Longrightarrow> \<not> nullish p \<Longrightarrow>
   respond parse e st jobId sid (JStr a)
     = (Success (add_turn (interviews st ! k) a p),
        st\<lparr>interviews := (interviews st)[k := add_turn (interviews st ! k) a p]\<rparr>, 1)"
  by (auto simp: respond_def trim_Nil)

text \<open>
  C5. Whatever requests to start, respond and end arrive, in whatever order and whether
  they succeed or fail, every stored session keeps the invariant when every stored session
  had it before (the file is empty at first): its messages alternate from an interviewer
  message on and \<^verbatim>\<open>questionCount\<close> is the number of interviewer messages. And after
  a start, whose fresh identifier no stored session of the job carries, followed by N
  accepted answers, the session counts N + 1 questions and holds 2 N + 1 messages.
\<close>

theorem interview_invariant:
  "((\<forall>s\<in>set (interviews st). session_inv s) \<longrightarrow>
      (\<forall>s\<in>set (interviews (foldl (handle parse) st reqs)). session_inv s)) \<and>
   (start parse e0 st jobId = (Success s0, st1, n0) \<and>
    (\<forall>s\<in>set (interviews st). \<not> (id_s s = uuid e0 \<and> jobId_s s = jobId)) \<and>
    respond_all parse st1 jobId (id_s s0) turns = Some st2 \<longrightarrow>
      (\<exists>k. find_session jobId (id_s s0) (interviews st2) = Some k \<and>
           questionCount (interviews st2 ! k) = length turns + 1 \<and>
           length (messages (interviews st2 ! k)) = 2 * length turns + 1))"
proof (intro conjI impI)
  assume "\<forall>s\<in>set (interviews st). session_inv s"
  then show "\<forall>s\<in>set (interviews (foldl (handle parse) st reqs)). session_inv s"
    by (rule run_inv)
next
  assume a: "start parse e0 st jobId = (Success s0, st1, n0) \<and>
    (\<forall>s\<in>set (interviews st). \<not> (id_s s = uuid e0 \<and> jobId_s s = jobId)) \<and>
    respond_all parse st1 jobId (id_s s0) turns = Some st2"
  then have h: "start parse e0 st jobId = (Success s0, st1, n0)"
    and fresh: "\<forall>s\<in>set (interviews st). \<not> (id_s s = uuid e0 \<and> jobId_s s = jobId)"
    and all: "respond_all parse st1 jobId (id_s s0) turns = Some st2"
    by simp_all
  from start_shape [OF h] obtain parsed where
    s0: "s0 = new_session e0 jobId parsed" and
    st1: "st1 = st\<lparr>interviews := interviews st @ [new_session e0 jobId parsed]\<rparr>"
    by auto
  have f: "find_session jobId (id_s s0) (interviews st1) = Some (length (interviews st))"
    unfolding find_session_def st1 s0 using fresh
    by (simp add: find_index_append_new new_session_def)
  from respond_all_counts [OF f all]
  show "\<exists>k. find_session jobId (id_s s0) (interviews st2) = Some k \<and>
           questionCount (interviews st2 ! k) = length turns + 1 \<and>
           length (messages (interviews st2 ! k)) = 2 * length turns + 1"
    by (simp add: st1 new_session_def)
qed

theorem interview_invariant_witness:
  "\<exists>s0 st1 st2 k.
     start parse_examples env1 store1 (ascii ''job-1'') = (Success s0, st1, 1) \<and>
     respond_all parse_examples st1 (ascii ''job-1'') (id_s s0) answers = Some st2 \<and>
     find_session (ascii ''job-1'') (id_s s0) (interviews st2) = Some k \<and>
     questionCount (interviews st2 ! k) = 3 \<and>
     length (messages (interviews st2 ! k)) = 5 \<and>
     session_inv (interviews st2 ! k)"
proof -
  let ?j = "ascii ''job-1''"
  let ?s0 = "new_session env1 ?j (JObj Map.empty)"
  let ?st1 = "store1\<lparr>interviews := [?s0]\<rparr>"
  let ?a1 = "ascii ''I led a team of 5 engineers.''"
  let ?a2 = "ascii ''I resolved the conflict by listening.''"
  let ?s1 = "add_turn ?s0 ?a1 (JObj Map.empty)"
  let ?st2 = "store1\<lparr>interviews := [?s1]\<rparr>"
  let ?s2 = "add_turn ?s1 ?a2 (JObj Map.empty)"
  let ?st3 = "store1\<lparr>interviews := [?s2]\<rparr>"
  have r: "reply env1 = Some (ascii ''{}'')" by (simp add: env1_def)
  have nn: "\<not> nullish (JObj Map.empty)" by (simp add: nullish_def)
  have j: "List.find (\<lambda>j. strict_eq (get_prop j ''id'') (JStr ?j)) (jobs store1) = Some job1"
    by (simp add: store1_def job1_def get_prop_def)
  have h: "start parse_examples env1 store1 ?j = (Success ?s0, ?st1, 1)"
    by (simp add: start_def j r extract_empty_object nn) (simp add: store1_def)
  have t1: "trim ?a1 \<noteq> []" by code_simp
  have t2: "trim ?a2 \<noteq> []" by code_simp
  have f1: "find_session ?j (id_s ?s0) (interviews ?st1) = Some 0"
    by (simp add: find_session_def new_session_def)
  have c1: "\<not> truthy (completedAt (interviews ?st1 ! 0))"
    by (simp add: new_session_def)
  have r1: "respond parse_examples env1 ?st1 ?j (id_s ?s0) (JStr ?a1) = (Success ?s1, ?st2, 1)"
    using respond_success [OF f1 c1 t1 r extract_empty_object nn] by simp
  have f2: "find_session ?j (id_s ?s0) (interviews ?st2) = Some 0"
    by (simp add: find_session_def new_session_def add_turn_def)
  have c2: "\<not> truthy (completedAt (interviews ?st2 ! 0))"
    by (simp add: new_session_def add_turn_def)
  have r2: "respond parse_examples env1 ?st2 ?j (id_s ?s0) (JStr ?a2) = (Success ?s2, ?st3, 1)"
    using respond_success [OF f2 c2 t2 r extract_empty_object nn] by simp
  have all: "respond_all parse_examples ?st1 ?j (id_s ?s0) answers = Some ?st3"
    by (simp add: answers_def r1 r2)
  have fresh: "\<forall>s\<in>set (interviews store1). \<not> (id_s s = uuid env1 \<and> jobId_s s = ?j)"
    by (simp add: store1_def)
  have inv0: "\<forall>s\<in>set (interviews store1). session_inv s"
    by (simp add: store1_def)
  from interview_invariant [of store1 parse_examples "[]" env1 ?j ?s0 ?st1 1 answers ?st3]
    h fresh all
  obtain k where k: "find_session ?j (id_s ?s0) (interviews ?st3) = Some k"
    and q: "questionCount (interviews ?st3 ! k) = length answers + 1"
    and l: "length (messages (interviews ?st3 ! k)) = 2 * length answers + 1"
    by blast
  have k0: "k = 0" using k by (simp add: find_session_def new_session_def add_turn_def)
  have "foldl (handle parse_examples) store1
          [(env1, Start ?j), (env1, Respond ?j (id_s ?s0) (JStr ?a1)),
           (env1, Respond ?j (id_s ?s0) (JStr ?a2))] = ?st3"
    by (simp add: h r1 r2)
  with interview_invariant [of store1 parse_examples
          "[(env1, Start ?j), (env1, Respond ?j (id_s ?s0) (JStr ?a1)),
            (env1, Respond ?j (id_s ?s0) (JStr ?a2))]"] inv0
  have "\<forall>s\<in>set (interviews ?st3). session_inv s" by simp
  then have i: "session_inv (interviews ?st3 ! k)" by (simp add: k0)
  show ?thesis
    using h all k q l i by (intro exI [of _ ?s0] exI [of _ ?st1] exI [of _ ?st3] exI [of _ k]) (simp add: answers_def)
qed

section \<open>Properties of the slot map\<close>

lemma upt_1_7: "[Suc 0..<7] = [1, 2, 3, 4, 5, 6]" by (simp add: upt_rec)
lemma upt_1_5: "[Suc 0..<5] = [1, 2, 3, 4]" by (simp add: upt_rec)
lemma upt_1_4: "[Suc 0..<4] = [1, 2, 3]" by (simp add: upt_rec)
lemma upt_1_2: "[Suc 0..<2] = [1]" by (simp add: upt_rec)
lemma upt_1_3: "[Suc 0..<3] = [1, 2]" by (simp add: upt_rec)

lemma skill_slots_unfold:
  "skill_slots parsed td = td
     (''mgmt_1'' \<mapsto> skill parsed ''management'' 0, ''mgmt_2'' \<mapsto> skill parsed ''management'' 1,
      ''mgmt_3'' \<mapsto> skill parsed ''management'' 2, ''mgmt_4'' \<mapsto> skill parsed ''management'' 3,
      ''mgmt_5'' \<mapsto> skill parsed ''management'' 4, ''mgmt_6'' \<mapsto> skill parsed ''management'' 5,
      ''design_1'' \<mapsto> skill parsed ''design'' 0, ''design_2'' \<mapsto> skill parsed ''design'' 1,
      ''design_3'' \<mapsto> skill parsed ''design'' 2, ''design_4'' \<mapsto> skill parsed ''design'' 3,
      ''design_5'' \<mapsto> skill parsed ''design'' 4, ''design_6'' \<mapsto> skill parsed ''design'' 5,
      ''tools_1'' \<mapsto> skill parsed ''tools'' 0, ''tools_2'' \<mapsto> skill parsed ''tools'' 1,
      ''tools_3'' \<mapsto> skill parsed ''tools'' 2, ''tools_4'' \<mapsto> skill parsed ''tools'' 3,
      ''tools_5'' \<mapsto> skill parsed ''tools'' 4, ''tools_6'' \<mapsto> skill parsed ''tools'' 5)"
  by (simp add: skill_slots_def skillCategories_def upt_1_7 digit_def skill_def Let_def)

lemma experience_slots_unfold:
  "experience_slots parsed td = td
     (''exp1_title'' \<mapsto> exp_field parsed 0 ''title'', ''exp1_company'' \<mapsto> exp_field parsed 0 ''company'',
      ''exp1_location'' \<mapsto> exp_field parsed 0 ''location'', ''exp1_dates'' \<mapsto> exp_field parsed 0 ''dates'',
      ''exp1_bullet1'' \<mapsto> bullet parsed 0 0, ''exp1_bullet2'' \<mapsto> bullet parsed 0 1,
      ''exp1_bullet3'' \<mapsto> bullet parsed 0 2, ''exp1_bullet4'' \<mapsto> bullet parsed 0 3,
      ''exp2_title'' \<mapsto> exp_field parsed 1 ''title'', ''exp2_company'' \<mapsto> exp_field parsed 1 ''company'',
      ''exp2_location'' \<mapsto> exp_field parsed 1 ''location'', ''exp2_dates'' \<mapsto> exp_field parsed 1 ''dates'',
      ''exp2_bullet1'' \<mapsto> bullet parsed 1 0, ''exp2_bullet2'' \<mapsto> bullet parsed 1 1,
      ''exp2_bullet3'' \<mapsto> bullet parsed 1 2,
      ''exp3_title'' \<mapsto> exp_field parsed 2 ''title'', ''exp3_company'' \<mapsto> exp_field parsed 2 ''company'',
      ''exp3_location'' \<mapsto> exp_field parsed 2 ''location'', ''exp3_dates'' \<mapsto> exp_field parsed 2 ''dates'',
      ''exp3_bullet1'' \<mapsto> bullet parsed 2 0, ''exp3_bullet2'' \<mapsto> bullet parsed 2 1,
      ''exp3_bullet3'' \<mapsto> bullet parsed 2 2,
      ''exp4_title'' \<mapsto> exp_field parsed 3 ''title'', ''exp4_company'' \<mapsto> exp_field parsed 3 ''company'',
      ''exp4_location'' \<mapsto> exp_field parsed 3 ''location'', ''exp4_dates'' \<mapsto> exp_field parsed 3 ''dates'',
      ''exp4_bullet1'' \<mapsto> bullet parsed 3 0, ''exp4_bullet2'' \<mapsto> bullet parsed 3 1)"
  by (simp add: experience_slots_def bulletCounts_def upt_1_5 upt_1_4 upt_1_3 upt_1_2 digit_def
                exp_field_def bullet_def experience_def Let_def)
lemma templateData_explicit:
  "\<not> nullish parsed \<Longrightarrow>
   templateData prof job parsed e
     = Some (map_of (rev (zip fixed_slots (slot_values prof job parsed (today e)))))"
  by (simp add: templateData_def header_slots_def skill_slots_unfold experience_slots_unfold
                fixed_slots_def slot_values_def)

lemma distinct_fixed_slots: "distinct fixed_slots"
  by (simp add: fixed_slots_def)

lemma length_slot_values: "length (slot_values prof job parsed d) = length fixed_slots"
  by (simp add: slot_values_def fixed_slots_def)

lemma or_js_defined: "or_js v (JStr []) = JStr [] \<or> truthy (or_js v (JStr []))"
  by (simp add: or_js_def)

lemma slot_map_lookup:
  "(k, v) \<in> set (zip fixed_slots (slot_values prof job parsed d)) \<Longrightarrow>
   slot_map prof job parsed d k = Some v"
  unfolding slot_map_def
  by (rule map_of_is_SomeI) (simp_all add: distinct_fixed_slots length_slot_values rev_map [symmetric])

lemma dom_slot_map: "dom (slot_map prof job parsed d) = set fixed_slots"
  by (simp add: slot_map_def dom_map_of_conv_image_fst length_slot_values
           flip: set_map)

lemma i_cases: "1 \<le> i \<Longrightarrow> i \<le> 6 \<Longrightarrow> i = 1 \<or> i = 2 \<or> i = 3 \<or> i = 4 \<or> i = 5 \<or> i = (6::nat)"
  by arith

lemma n_cases: "1 \<le> n \<Longrightarrow> n \<le> 4 \<Longrightarrow> n = 1 \<or> n = 2 \<or> n = 3 \<or> n = (4::nat)"
  by arith

lemma slot_map_skill:
  assumes "(category, prefix) \<in> set skillCategories" and "1 \<le> i" and "i \<le> 6"
  shows "slot_map prof job parsed d (prefix @ ''_'' @ string_of_nat i)
           = Some (skill parsed category (i - 1))"
proof (rule slot_map_lookup)
  from assms(1) have c: "(category, prefix) = (''management'', ''mgmt'') \<or>
      (category, prefix) = (''design'', ''design'') \<or> (category, prefix) = (''tools'', ''tools'')"
    by (simp add: skillCategories_def)
  from i_cases [OF assms(2,3)] c
  show "(prefix @ ''_'' @ string_of_nat i, skill parsed category (i - 1))
          \<in> set (zip fixed_slots (slot_values prof job parsed d))"
    by (elim disjE) (simp_all add: fixed_slots_def slot_values_def digit_def)
qed

lemma slot_map_exp_field:
  assumes "1 \<le> n" and "n \<le> 4" and "f \<in> {''title'', ''company'', ''location'', ''dates''}"
  shows "slot_map prof job parsed d (''exp'' @ string_of_nat n @ ''_'' @ f)
           = Some (exp_field parsed (n - 1) f)"
proof (rule slot_map_lookup)
  from assms(3) have c: "f = ''title'' \<or> f = ''company'' \<or> f = ''location'' \<or> f = ''dates''"
    by simp
  from n_cases [OF assms(1,2)] c
  show "(''exp'' @ string_of_nat n @ ''_'' @ f, exp_field parsed (n - 1) f)
          \<in> set (zip fixed_slots (slot_values prof job parsed d))"
    by (elim disjE) (simp_all add: fixed_slots_def slot_values_def digit_def)
qed

lemma slot_map_bullet:
  assumes "1 \<le> n" and "n \<le> 4" and "1 \<le> b" and "b \<le> bulletCounts ! (n - 1)"
  shows "slot_map prof job parsed d (''exp'' @ string_of_nat n @ ''_bullet'' @ string_of_nat b)
           = Some (bullet parsed (n - 1) (b - 1))"
proof (rule slot_map_lookup)
  from n_cases [OF assms(1,2)] assms(3,4)
  have "(n = 1 \<and> (b = 1 \<or> b = 2 \<or> b = 3 \<or> b = 4)) \<or>
        (n = 2 \<and> (b = 1 \<or> b = 2 \<or> b = 3)) \<or>
        (n = 3 \<and> (b = 1 \<or> b = 2 \<or> b = 3)) \<or>
        (n = 4 \<and> (b = 1 \<or> b = 2))"
    by (elim disjE) (auto simp: bulletCounts_def)
  then show "(''exp'' @ string_of_nat n @ ''_bullet'' @ string_of_nat b, bullet parsed (n - 1) (b - 1))
          \<in> set (zip fixed_slots (slot_values prof job parsed d))"
    by (elim disjE conjE) (simp_all add: fixed_slots_def slot_values_def digit_def)
qed

lemma slot_map_defined:
  assumes "k \<in> set fixed_slots"
  shows "\<exists>v. slot_map prof job parsed d k = Some v \<and> (v = JStr [] \<or> truthy v)"
proof -
  let ?vs = "slot_values prof job parsed d"
  from assms obtain i where i: "i < length fixed_slots" and k: "k = fixed_slots ! i"
    by (auto simp: in_set_conv_nth)
  then have "(k, ?vs ! i) \<in> set (zip fixed_slots ?vs)"
    by (auto simp: set_zip length_slot_values)
  then have "slot_map prof job parsed d k = Some (?vs ! i)"
    by (rule slot_map_lookup)
  moreover have "list_all (\<lambda>v. v = JStr [] \<or> truthy v) ?vs"
    by (simp add: slot_values_def skill_def exp_field_def bullet_def or_js_defined)
  then have "?vs ! i = JStr [] \<or> truthy (?vs ! i)"
    using i by (simp add: list_all_length length_slot_values)
  ultimately show ?thesis by blast
qed

lemma skill_array:
  "opt_member (member parsed ''skills'') category = JArr xs \<Longrightarrow>
   skill parsed category j = (if j < length xs then or_js (xs ! j) (JStr []) else JStr [])"
  by (simp add: skill_def or_js_def)

lemma skill_absent:
  "\<not> truthy (opt_member (member parsed ''skills'') category) \<Longrightarrow>
   skill parsed category j = JStr []"
  by (simp add: skill_def or_js_def)
text \<open>
  C4, as the code has it. For every parsed result other than \<^verbatim>\<open>null\<close> the resume
  handler builds a slot map: its names are exactly the 57 fixed slot names; every slot holds
  a defined value, the empty string or a truthy value; the map depends on the request only
  through the profile, the job, the result and the formatted date, so the same result
  gives the same map. For each skill category and each \<open>i\<close> from 1 to 6 the slot
  \<^verbatim>\<open>prefix_i\<close> holds \<^verbatim>\<open>skills[i - 1] || ''\<close>: when the category is an array, its
  entry \<open>i - 1\<close> if there is one and it is truthy, and the empty string otherwise; when the
  category is missing, the empty string. For each experience position \<open>n\<close> from 1 to 4
  the four field slots and the bullet slots 1 to 4, 3, 3, 2 hold the fields and bullets of
  experience \<open>n - 1\<close>, or the empty string. No other name is in the map, so what lies
  beyond the sixth skill, the fourth experience or the bullet budget is dropped.
\<close>

theorem templateData_slots:
  assumes "\<not> nullish parsed"
  shows "\<exists>td. templateData prof job parsed e = Some td \<and>
     dom td = set fixed_slots \<and>
     (\<forall>k\<in>set fixed_slots. \<exists>v. td k = Some v \<and> (v = JStr [] \<or> truthy v)) \<and>
     (\<forall>e'. today e' = today e \<longrightarrow> templateData prof job parsed e' = Some td) \<and>
     (\<forall>category prefix i. (category, prefix) \<in> set skillCategories \<and> 1 \<le> i \<and> i \<le> 6 \<longrightarrow>
        td (prefix @ ''_'' @ string_of_nat i) = Some (skill parsed category (i - 1)) \<and>
        (\<forall>xs. opt_member (member parsed ''skills'') category = JArr xs \<longrightarrow>
           skill parsed category (i - 1)
             = (if i - 1 < length xs then or_js (xs ! (i - 1)) (JStr []) else JStr [])) \<and>
        (\<not> truthy (opt_member (member parsed ''skills'') category) \<longrightarrow>
           skill parsed category (i - 1) = JStr [])) \<and>
     (\<forall>n f. 1 \<le> n \<and> n \<le> 4 \<and> f \<in> {''title'', ''company'', ''location'', ''dates''} \<longrightarrow>
        td (''exp'' @ string_of_nat n @ ''_'' @ f) = Some (exp_field parsed (n - 1) f)) \<and>
     (\<forall>n b. 1 \<le> n \<and> n \<le> 4 \<and> 1 \<le> b \<and> b \<le> bulletCounts ! (n - 1) \<longrightarrow>
        td (''exp'' @ string_of_nat n @ ''_bullet'' @ string_of_nat b)
          = Some (bullet parsed (n - 1) (b - 1)))"
proof (intro exI conjI)
  show "templateData prof job parsed e = Some (slot_map prof job parsed (today e))"
    using assms by (simp add: templateData_explicit slot_map_def)
  show "dom (slot_map prof job parsed (today e)) = set fixed_slots"
    by (rule dom_slot_map)
  show "\<forall>k\<in>set fixed_slots. \<exists>v. slot_map prof job parsed (today e) k = Some v \<and>
          (v = JStr [] \<or> truthy v)"
    using slot_map_defined by blast
  show "\<forall>e'. today e' = today e \<longrightarrow>
          templateData prof job parsed e' = Some (slot_map prof job parsed (today e))"
    using assms by (simp add: templateData_explicit slot_map_def)
  show "\<forall>category prefix i. (category, prefix) \<in> set skillCategories \<and> 1 \<le> i \<and> i \<le> 6 \<longrightarrow>
        slot_map prof job parsed (today e) (prefix @ ''_'' @ string_of_nat i)
          = Some (skill parsed category (i - 1)) \<and>
        (\<forall>xs. opt_member (member parsed ''skills'') category = JArr xs \<longrightarrow>
           skill parsed category (i - 1)
             = (if i - 1 < length xs then or_js (xs ! (i - 1)) (JStr []) else JStr [])) \<and>
        (\<not> truthy (opt_member (member parsed ''skills'') category) \<longrightarrow>
           skill parsed category (i - 1) = JStr [])"
    using slot_map_skill skill_array skill_absent by blast
  show "\<forall>n f. 1 \<le> n \<and> n \<le> 4 \<and> f \<in> {''title'', ''company'', ''location'', ''dates''} \<longrightarrow>
        slot_map prof job parsed (today e) (''exp'' @ string_of_nat n @ ''_'' @ f)
          = Some (exp_field parsed (n - 1) f)"
    using slot_map_exp_field by blast
  show "\<forall>n b. 1 \<le> n \<and> n \<le> 4 \<and> 1 \<le> b \<and> b \<le> bulletCounts ! (n - 1) \<longrightarrow>
        slot_map prof job parsed (today e) (''exp'' @ string_of_nat n @ ''_bullet'' @ string_of_nat b)
          = Some (bullet parsed (n - 1) (b - 1))"
    using slot_map_bullet by blast
qed

text \<open>
  A result with five management skills, eight tools and nothing else: slots 1 to 5 hold
  the five skills and slot 6 the empty string; the sixth tool is mapped, a seventh slot
  does not exist.
\<close>

theorem templateData_slots_witness:
  "\<exists>td. templateData Map.empty job1 five_and_eight env1 = Some td \<and>
     td ''mgmt_5'' = Some (JStr (ascii ''Roadmaps'')) \<and>
     td ''mgmt_6'' = Some (JStr []) \<and>
     td ''tools_6'' = Some (JStr (ascii ''Slack'')) \<and>
     td ''tools_7'' = None \<and>
     td ''design_1'' = Some (JStr []) \<and>
     td ''exp4_bullet2'' = Some (JStr []) \<and>
     td ''exp4_bullet3'' = None \<and>
     td ''exp5_title'' = None"
proof -
  have nn: "\<not> nullish five_and_eight" by (simp add: nullish_def five_and_eight_def)
  from templateData_slots [OF nn, of Map.empty job1 env1] obtain td where
    t: "templateData Map.empty job1 five_and_eight env1 = Some td"
    and d: "dom td = set fixed_slots"
    and s: "\<forall>category prefix i. (category, prefix) \<in> set skillCategories \<and> 1 \<le> i \<and> i \<le> 6 \<longrightarrow>
        td (prefix @ ''_'' @ string_of_nat i) = Some (skill five_and_eight category (i - 1)) \<and>
        (\<forall>xs. opt_member (member five_and_eight ''skills'') category = JArr xs \<longrightarrow>
           skill five_and_eight category (i - 1)
             = (if i - 1 < length xs then or_js (xs ! (i - 1)) (JStr []) else JStr [])) \<and>
        (\<not> truthy (opt_member (member five_and_eight ''skills'') category) \<longrightarrow>
           skill five_and_eight category (i - 1) = JStr [])"
    and b: "\<forall>n b. 1 \<le> n \<and> n \<le> 4 \<and> 1 \<le> b \<and> b \<le> bulletCounts ! (n - 1) \<longrightarrow>
        td (''exp'' @ string_of_nat n @ ''_bullet'' @ string_of_nat b)
          = Some (bullet five_and_eight (n - 1) (b - 1))"
    by blast
  have m: "opt_member (member five_and_eight ''skills'') ''management''
             = JArr (map (\<lambda>s. JStr (ascii s))
                 [''Hiring'', ''Planning'', ''Coaching'', ''Budgets'', ''Roadmaps''])"
    by (simp add: five_and_eight_def opt_member_def nullish_def get_prop_def)
  have tl: "opt_member (member five_and_eight ''skills'') ''tools''
             = JArr (map (\<lambda>s. JStr (ascii s))
                 [''Figma'', ''Sketch'', ''Miro'', ''Jira'', ''Notion'', ''Slack'', ''Excel'', ''Word''])"
    by (simp add: five_and_eight_def opt_member_def nullish_def get_prop_def)
  have ds: "\<not> truthy (opt_member (member five_and_eight ''skills'') ''design'')"
    by (simp add: five_and_eight_def opt_member_def nullish_def get_prop_def)
  have c: "(''management'', ''mgmt'') \<in> set skillCategories"
    "(''tools'', ''tools'') \<in> set skillCategories" "(''design'', ''design'') \<in> set skillCategories"
    by (simp_all add: skillCategories_def)
  have m5: "td ''mgmt_5'' = Some (JStr (ascii ''Roadmaps''))"
    using s [rule_format, of "''management''" "''mgmt''" 5] c m
    by (simp add: digit_def or_js_def ascii_def)
  have m6: "td ''mgmt_6'' = Some (JStr [])"
    using s [rule_format, of "''management''" "''mgmt''" 6] c m
    by (simp add: digit_def)
  have t6: "td ''tools_6'' = Some (JStr (ascii ''Slack''))"
    using s [rule_format, of "''tools''" "''tools''" 6] c tl
    by (simp add: digit_def or_js_def ascii_def)
  have d1: "td ''design_1'' = Some (JStr [])"
    using s [rule_format, of "''design''" "''design''" 1] c ds
    by (simp add: digit_def)
  have b2: "td ''exp4_bullet2'' = Some (JStr [])"
    using b [rule_format, of 4 2]
    by (simp add: digit_def bulletCounts_def bullet_def experience_def or_js_def five_and_eight_def
                  get_prop_def)
  have "''tools_7'' \<notin> set fixed_slots" "''exp4_bullet3'' \<notin> set fixed_slots"
    "''exp5_title'' \<notin> set fixed_slots"
    by (simp_all add: fixed_slots_def)
  with d have n: "td ''tools_7'' = None" "td ''exp4_bullet3'' = None" "td ''exp5_title'' = None"
    by (auto simp: domIff)
  show ?thesis using t m5 m6 t6 d1 b2 n by blast
qed
text \<open>
  The claim as the specification words it fails in three ways. The slot \<^verbatim>\<open>date\<close>
  holds the current date, so the same result mapped on two days gives two maps. On the
  result \<^verbatim>\<open>null\<close>, which \<^verbatim>\<open>JSON.parse\<close> returns for the text \<^verbatim>\<open>null\<close>, no
  slot map is produced and the request ends with status 500. And a skill that is a number
  fills its slot with the number, not with a string.
\<close>

theorem templateData_counterexample:
  "the (templateData (profile store1) job1 (JObj Map.empty) env1) ''date''
     = Some (JStr (ascii ''January 2, 2026'')) \<and>
   the (templateData (profile store1) job1 (JObj Map.empty) env_next_day) ''date''
     = Some (JStr (ascii ''January 3, 2026'')) \<and>
   templateData (profile store1) job1 JNull env1 = None \<and>
   generate Resume parse_examples env_null store1 (JStr (ascii ''job-1''))
     = (Failure 500 ''Failed to tailor resume'' None, store1, 1) \<and>
   the (templateData (profile store1) job1 seven env1) ''mgmt_1'' = Some (JNum 7)"
proof -
  have d: "\<And>e. the (templateData (profile store1) job1 (JObj Map.empty) e) ''date''
                = Some (JStr (today e))"
    by (simp add: templateData_def nullish_def experience_slots_unfold skill_slots_unfold
                  header_slots_def)
  have d1: "the (templateData (profile store1) job1 (JObj Map.empty) env1) ''date''
              = Some (JStr (ascii ''January 2, 2026''))"
    by (simp add: d env1_def)
  have d2: "the (templateData (profile store1) job1 (JObj Map.empty) env_next_day) ''date''
              = Some (JStr (ascii ''January 3, 2026''))"
    by (simp add: d env_next_day_def)
  have a: "templateData (profile store1) job1 JNull env1 = None"
    by (simp add: templateData_def nullish_def)
  have b: "generate Resume parse_examples env_null store1 (JStr (ascii ''job-1''))
     = (Failure 500 ''Failed to tailor resume'' None, store1, 1)"
    using find_job1_store1
    by (simp add: tailor_def find_job_def env_null_def extract_null templateData_def
                  nullish_def Let_def job1_id_nonempty)
  have nn: "\<not> nullish seven" by (simp add: nullish_def seven_def)
  have e: "templateData (profile store1) job1 seven env1
             = Some (slot_map (profile store1) job1 seven (today env1))"
    using templateData_explicit [OF nn] by (simp add: slot_map_def)
  have s: "slot_map (profile store1) job1 seven (today env1) ''mgmt_1''
             = Some (skill seven ''management'' 0)"
    using slot_map_skill [of "''management''" "''mgmt''" 1 "profile store1" job1 seven "today env1"]
    by (simp add: skillCategories_def digit_def)
  have k: "skill seven ''management'' 0 = JNum 7"
    by (simp add: skill_def seven_def opt_member_def nullish_def get_prop_def or_js_def)
  have c: "the (templateData (profile store1) job1 seven env1) ''mgmt_1'' = Some (JNum 7)"
    by (simp add: e s k)
  show ?thesis using d1 d2 a b c by blast
qed

section \<open>Properties of the stored artifacts\<close>












section \<open>Rendering that fails\<close>






end
